theory Spec2Isabelle
  imports Main "HOL-Library.Finite_Map"
begin

section \<open>The article store of marklume (backend/database.py)\<close>

subsection \<open>Strings, times, errors\<close>

text \<open>
  A Python \<^verbatim>\<open>str\<close> is a sequence of Unicode code points, so a string is a list of
  code points. \<open>ustr\<close> turns an ASCII literal into such a list. A \<^verbatim>\<open>datetime\<close> (naive,
  as \<^verbatim>\<open>datetime.now()\<close> gives it) is the number of microseconds since
  \<^verbatim>\<open>datetime.min\<close>, 0001-01-01 00:00:00, so that subtracting two of them is subtracting
  the numbers, and \<^verbatim>\<open>CACHE_EXPIRY = timedelta(minutes=30)\<close> is 30 minutes in that unit.
\<close>

type_synonym ustring = "nat list"
type_synonym path = ustring
type_synonym time = int

definition ustr :: "string \<Rightarrow> ustring" where
  "ustr s = map of_char s"

definition CACHE_EXPIRY :: int where
  "CACHE_EXPIRY = 30 * 60 * 1000000"

definition ARCHIVE_DIR :: path where
  "ARCHIVE_DIR = ustr ''archive''"

text \<open>
  The exceptions that leave the store's functions: the \<^verbatim>\<open>RuntimeError\<close> raised by
  create and update with its message, and the two codec errors of a file opened with
  \<^verbatim>\<open>encoding='utf-8'\<close>, which are \<^verbatim>\<open>ValueError\<close>s and so pass the
  \<^verbatim>\<open>except OSError\<close> clauses.
\<close>

datatype py_error = RuntimeError ustring | UnicodeEncodeError | UnicodeDecodeError

subsection \<open>The Article class (backend/models.py)\<close>

text \<open>
  \<^verbatim>\<open>file_path\<close> defaults to \<^verbatim>\<open>None\<close>. The constructor's
  \<^verbatim>\<open>last_accessed or datetime.now()\<close> keeps the value it is given, since a
  \<^verbatim>\<open>datetime\<close> is never falsy, and every caller passes one.
\<close>

record article =
  id' :: int
  title :: ustring
  content :: ustring
  created_at :: time
  updated_at :: time
  file_path :: "path option"
  last_accessed :: time

text \<open>The module's globals \<^verbatim>\<open>db = []\<close> and \<^verbatim>\<open>next_id = 1\<close>.\<close>

record store =
  db :: "article list"
  next_id :: int

definition initial_store :: store where
  "initial_store = \<lparr>db = [], next_id = 1\<rparr>"

text \<open>
  \<^verbatim>\<open>if article.file_path\<close>: a path that is neither \<^verbatim>\<open>None\<close> nor the empty
  string. \<open>backing_file\<close> gives that path.
\<close>

definition backing_file :: "article \<Rightarrow> path option" where
  "backing_file a = (case file_path a of None \<Rightarrow> None | Some p \<Rightarrow> if p = [] then None else Some p)"

subsection \<open>The file system\<close>

text \<open>
  A file holds bytes. They are either the UTF-8 encoding of exactly one string
  (\<open>Utf8 s\<close>) or not valid UTF-8 at all (\<open>NotUtf8\<close>). The archive directory is
  filled by the store and by whoever else puts Markdown files there, so both occur.
  The other fields are the environment's choice of what fails. \<open>write_fails\<close>,
  \<open>read_fails\<close> and \<open>remove_fails\<close> are the paths where \<^verbatim>\<open>open(p, 'w')\<close>,
  \<^verbatim>\<open>open(p, 'r')\<close> and \<^verbatim>\<open>os.remove(p)\<close> raise an \<^verbatim>\<open>OSError\<close> (other than
  \<^verbatim>\<open>FileNotFoundError\<close> for the read). \<open>write_breaks p = Some d\<close> says that on \<open>p\<close>
  the \<^verbatim>\<open>open(p, 'w')\<close> succeeds and then \<^verbatim>\<open>f.write\<close> or the closing of the file raises
  an \<^verbatim>\<open>OSError\<close> (disk full, quota, size limit), with \<open>d\<close> what is left in the file:
  nothing, when the file was only truncated, or whatever part had been written.
\<close>

datatype file_data = Utf8 ustring | NotUtf8

record filesystem =
  files :: "(path, file_data) fmap"
  write_fails :: "path \<Rightarrow> bool"
  write_breaks :: "path \<Rightarrow> file_data option"
  read_fails :: "path \<Rightarrow> bool"
  remove_fails :: "path \<Rightarrow> bool"

definition path_exists :: "filesystem \<Rightarrow> path \<Rightarrow> bool" where
  "path_exists fs p = (fmlookup (files fs) p \<noteq> None)"

text \<open>
  Text mode with the default \<^verbatim>\<open>newline=None\<close> turns \<^verbatim>\<open>\r\n\<close> and \<^verbatim>\<open>\r\<close> into
  \<^verbatim>\<open>\n\<close> on reading; on writing (POSIX) it leaves \<^verbatim>\<open>\n\<close> as it is.
\<close>

fun universal_newlines :: "ustring \<Rightarrow> ustring" where
  "universal_newlines [] = []"
| "universal_newlines [c] = [if c = 13 then 10 else c]"
| "universal_newlines (c # d # cs) =
     (if c = 13 \<and> d = 10 then 10 # universal_newlines cs
      else if c = 13 then 10 # universal_newlines (d # cs)
      else c # universal_newlines (d # cs))"

datatype read_result = ReadOk ustring | FileNotFoundError | ReadOSError | ReadDecodeError

text \<open>\<^verbatim>\<open>with open(p, 'r', encoding='utf-8') as f: f.read()\<close>\<close>

definition read_file :: "filesystem \<Rightarrow> path \<Rightarrow> read_result" where
  "read_file fs p =
     (if read_fails fs p then ReadOSError
      else case fmlookup (files fs) p of
             None \<Rightarrow> FileNotFoundError
           | Some NotUtf8 \<Rightarrow> ReadDecodeError
           | Some (Utf8 s) \<Rightarrow> ReadOk (universal_newlines s))"

text \<open>
  UTF-8 encodes every code point but the surrogates \<^verbatim>\<open>U+D800..U+DFFF\<close>.
\<close>

definition encodable :: "ustring \<Rightarrow> bool" where
  "encodable s = list_all (\<lambda>c. \<not> (55296 \<le> c \<and> c \<le> 57343)) s"

text \<open>
  What the write does, each time with the file system it leaves: it goes through, it
  raises an \<^verbatim>\<open>OSError\<close>, or it raises \<^verbatim>\<open>UnicodeEncodeError\<close>.
\<close>

datatype write_result =
  Written filesystem | WriteOSError filesystem | WriteEncodeError filesystem

text \<open>
  \<^verbatim>\<open>with open(p, 'w', encoding='utf-8') as f: f.write(content)\<close>.
  When \<^verbatim>\<open>open\<close> raises, the file system is as before. After that the file exists and
  is empty: \<^verbatim>\<open>f.write\<close> first encodes the content, and raises when it cannot; then the
  bytes go to the file, and an \<^verbatim>\<open>OSError\<close> there or in the closing leaves the file with
  the data the environment names.
\<close>

definition write_file :: "filesystem \<Rightarrow> path \<Rightarrow> ustring \<Rightarrow> write_result" where
  "write_file fs p s =
     (if write_fails fs p then WriteOSError fs
      else if \<not> encodable s then WriteEncodeError (fs\<lparr>files := fmupd p (Utf8 []) (files fs)\<rparr>)
      else (case write_breaks fs p of
              Some d \<Rightarrow> WriteOSError (fs\<lparr>files := fmupd p d (files fs)\<rparr>)
            | None \<Rightarrow> Written (fs\<lparr>files := fmupd p (Utf8 s) (files fs)\<rparr>)))"

text \<open>\<^verbatim>\<open>os.path.join(ARCHIVE_DIR, filename)\<close> on POSIX: an absolute second part wins.\<close>

definition path_join :: "path \<Rightarrow> ustring \<Rightarrow> path" where
  "path_join dir filename =
     (case filename of
        [] \<Rightarrow> dir @ [47]
      | c # cs \<Rightarrow> if c = 47 then filename else dir @ [47] @ filename)"

subsection \<open>Reading: get_article\<close>

definition file_missing :: ustring where
  "file_missing = [0x26A0, 0xFE0F, 0x20, 0x6587, 0x7AE0, 0x6587, 0x4EF6, 0x4E22, 0x5931,
                   0xFF0C, 0x8BF7, 0x8054, 0x7CFB, 0x7BA1, 0x7406, 0x5458]"

definition load_failed :: ustring where
  "load_failed = [0x26A0, 0xFE0F, 0x20, 0x6587, 0x7AE0, 0x52A0, 0x8F7D, 0x5931, 0x8D25,
                  0xFF0C, 0x8BF7, 0x7A0D, 0x540E, 0x518D, 0x8BD5]"

text \<open>
  The on-demand load of \<^verbatim>\<open>get_article\<close>:
  \<^verbatim>\<open>
  if article.file_path and not article.content:
      try:
          with open(article.file_path, 'r', encoding='utf-8') as f:
              article.content = f.read()
      except FileNotFoundError:
          article.content = "... file missing ..."
      except OSError as e:
          article.content = "... load failed ..."
  \<close>
  The second component lists the paths that were opened for reading.
\<close>

definition load_content :: "filesystem \<Rightarrow> article \<Rightarrow> (py_error + article) \<times> path list" where
  "load_content fs a =
     (case backing_file a of
        None \<Rightarrow> (Inr a, [])
      | Some p \<Rightarrow>
          if content a \<noteq> [] then (Inr a, [])
          else (case read_file fs p of
                  ReadOk s \<Rightarrow> (Inr (a\<lparr>content := s\<rparr>), [p])
                | FileNotFoundError \<Rightarrow> (Inr (a\<lparr>content := file_missing\<rparr>), [p])
                | ReadOSError \<Rightarrow> (Inr (a\<lparr>content := load_failed\<rparr>), [p])
                | ReadDecodeError \<Rightarrow> (Inl UnicodeDecodeError, [p])))"

text \<open>
  The loop \<^verbatim>\<open>for article in db: if article.id == article_id: ... return article\<close>,
  with \<^verbatim>\<open>return None\<close> after it. The result is the list with the article
  mutated in place, what the call returns or raises, and the paths it read.
\<close>

fun get_article_loop ::
  "filesystem \<Rightarrow> time \<Rightarrow> int \<Rightarrow> article list
     \<Rightarrow> article list \<times> (py_error + article option) \<times> path list" where
  "get_article_loop fs now article_id [] = ([], Inr None, [])"
| "get_article_loop fs now article_id (a # as) =
     (if id' a = article_id then
        (case load_content fs a of
           (Inl e, reads) \<Rightarrow> (a # as, Inl e, reads)
         | (Inr a1, reads) \<Rightarrow>
             (let a2 = a1\<lparr>last_accessed := now\<rparr> in (a2 # as, Inr (Some a2), reads)))
      else (case get_article_loop fs now article_id as of
              (as', r, reads) \<Rightarrow> (a # as', r, reads)))"

definition get_article ::
  "store \<Rightarrow> filesystem \<Rightarrow> time \<Rightarrow> int \<Rightarrow> store \<times> (py_error + article option) \<times> path list" where
  "get_article st fs now article_id =
     (case get_article_loop fs now article_id (db st) of
        (as', r, reads) \<Rightarrow> (st\<lparr>db := as'\<rparr>, r, reads))"

subsection \<open>Creating: create_new_article\<close>

text \<open>
  \<^verbatim>\<open>"".join(c if c.isalnum() or c in " -_" else "_" for c in title)\<close>.
  \<^verbatim>\<open>str.isalnum\<close> is Python's table of the Unicode database; it is the parameter
  \<open>isalnum\<close>.
\<close>

definition safe_char :: "(nat \<Rightarrow> bool) \<Rightarrow> nat \<Rightarrow> nat" where
  "safe_char isalnum c = (if isalnum c \<or> c \<in> set (ustr '' -_'') then c else 95)"

text \<open>The decimal digits of the counter, as the f-string prints them.\<close>

fun str_nat :: "nat \<Rightarrow> ustring" where
  "str_nat n = (if n < 10 then [48 + n] else str_nat (n div 10) @ [48 + n mod 10])"

declare str_nat.simps [simp del]

text \<open>\<^verbatim>\<open>f"{safe_title}_{date_suffix}_{counter}.md"\<close> joined to the archive directory.\<close>

definition suffixed_path :: "ustring \<Rightarrow> ustring \<Rightarrow> nat \<Rightarrow> path" where
  "suffixed_path safe_title date_suffix counter =
     path_join ARCHIVE_DIR
       (safe_title @ ustr ''_'' @ date_suffix @ ustr ''_'' @ str_nat counter @ ustr ''.md'')"

text \<open>Reading the digits back shows that different counters give different names.\<close>

definition nat_of_digits :: "ustring \<Rightarrow> nat" where
  "nat_of_digits ds = foldl (\<lambda>acc d. 10 * acc + (d - 48)) 0 ds"

lemma nat_of_digits_str_nat: "nat_of_digits (str_nat n) = n"
proof (induction n rule: str_nat.induct)
  case (1 n)
  show ?case
  proof (cases "n < 10")
    case True
    then show ?thesis by (simp add: str_nat.simps [of n] nat_of_digits_def)
  next
    case False
    with 1 have "nat_of_digits (str_nat (n div 10)) = n div 10" by simp
    with False show ?thesis
      by (simp add: str_nat.simps [of n] nat_of_digits_def)
  qed
qed

lemma str_nat_inj: "str_nat m = str_nat n \<Longrightarrow> m = n"
  by (metis nat_of_digits_str_nat)

lemma path_join_inj: "path_join dir (x @ 95 # y) = path_join dir (x @ 95 # z) \<Longrightarrow> y = z"
  by (cases x) (auto simp: path_join_def split: if_splits)

lemma suffixed_path_inj:
  "suffixed_path s d m = suffixed_path s d n \<Longrightarrow> m = n"
proof -
  assume "suffixed_path s d m = suffixed_path s d n"
  then have "path_join ARCHIVE_DIR (s @ 95 # d @ 95 # str_nat m @ ustr ''.md'')
      = path_join ARCHIVE_DIR (s @ 95 # d @ 95 # str_nat n @ ustr ''.md'')"
    by (simp add: suffixed_path_def ustr_def)
  then have "d @ 95 # str_nat m @ ustr ''.md'' = d @ 95 # str_nat n @ ustr ''.md''"
    by (rule path_join_inj)
  then show "m = n" by (simp add: str_nat_inj)
qed

lemma finite_taken_counters: "finite {c. path_exists fs (suffixed_path s d c)}"
proof -
  have "inj (suffixed_path s d)"
    by (rule injI) (rule suffixed_path_inj)
  then have "finite (suffixed_path s d -` fmdom' (files fs))"
    by (rule finite_vimageI [OF finite_fmdom'])
  moreover have "{c. path_exists fs (suffixed_path s d c)} = suffixed_path s d -` fmdom' (files fs)"
    by (auto simp: path_exists_def fmlookup_dom'_iff)
  ultimately show ?thesis by simp
qed

text \<open>
  \<^verbatim>\<open>
  counter = 1
  while os.path.exists(file_path):
      filename = f"{safe_title}_{date_suffix}_{counter}.md"
      file_path = os.path.join(ARCHIVE_DIR, filename)
      counter += 1
  \<close>
  The loop ends because the file system holds finitely many files.
\<close>

function free_file_path :: "filesystem \<Rightarrow> ustring \<Rightarrow> ustring \<Rightarrow> nat \<Rightarrow> path \<Rightarrow> path" where
  "free_file_path fs safe_title date_suffix counter p =
     (if path_exists fs p
      then free_file_path fs safe_title date_suffix (counter + 1)
             (suffixed_path safe_title date_suffix counter)
      else p)"
  by pat_completeness auto
termination
proof (relation "measure (\<lambda>(fs, s, d, counter, p).
         (if path_exists fs p then 1 else 0)
         + card {c. counter \<le> c \<and> path_exists fs (suffixed_path s d c)})")
  show "wf (measure (\<lambda>(fs, s, d, counter, p).
         (if path_exists fs p then 1 else 0)
         + card {c. counter \<le> c \<and> path_exists fs (suffixed_path s d c)}))"
    by simp
next
  fix fs :: filesystem and s d :: ustring and counter :: nat and p :: path
  assume ex: "path_exists fs p"
  let ?T = "\<lambda>k. {c. k \<le> c \<and> path_exists fs (suffixed_path s d c)}"
  have fin: "finite (?T counter)"
    using finite_taken_counters [of fs s d] by simp
  have "(if path_exists fs (suffixed_path s d counter) then 1 else 0) + card (?T (counter + 1))
          = card (?T counter)"
  proof (cases "path_exists fs (suffixed_path s d counter)")
    case True
    then have eq: "?T counter = insert counter (?T (counter + 1))" by auto
    have "finite (?T (counter + 1))"
      using finite_taken_counters [of fs s d] by simp
    then have "card (insert counter (?T (counter + 1))) = Suc (card (?T (counter + 1)))"
      by (rule card_insert_disjoint) simp
    with True eq show ?thesis by simp
  next
    case False
    then have "\<And>c. counter \<le> c \<Longrightarrow> path_exists fs (suffixed_path s d c) \<Longrightarrow> counter + 1 \<le> c"
      by (metis Suc_eq_plus1 Suc_leI le_neq_implies_less)
    then have "?T counter = ?T (counter + 1)"
      by auto
    with False show ?thesis by simp
  qed
  with ex show "((fs, s, d, counter + 1, suffixed_path s d counter), (fs, s, d, counter, p))
      \<in> measure (\<lambda>(fs, s, d, counter, p).
         (if path_exists fs p then 1 else 0)
         + card {c. counter \<le> c \<and> path_exists fs (suffixed_path s d c)})"
    by simp
qed

declare free_file_path.simps [simp del]

text \<open>
  \<^verbatim>\<open>now.strftime("%d%m%y")\<close>: the day of the month, the month and the year without
  century, two digits each. The date comes from the number of the day (1 for 0001-01-01)
  the way Python's \<^verbatim>\<open>datetime\<close> module computes it, in cycles of 400, 100, 4 and 1
  years.
\<close>

definition days_before_month :: "nat list" where
  "days_before_month = [0, 0, 31, 59, 90, 120, 151, 181, 212, 243, 273, 304, 334]"

definition days_in_month :: "nat list" where
  "days_in_month = [0, 31, 28, 31, 30, 31, 30, 31, 31, 30, 31, 30, 31]"

definition ord2ymd :: "nat \<Rightarrow> nat \<times> nat \<times> nat" where
  "ord2ymd ordinal =
     (let n = ordinal - 1;
          n400 = n div 146097; r400 = n mod 146097;
          n100 = r400 div 36524; r100 = r400 mod 36524;
          n4 = r100 div 1461; r4 = r100 mod 1461;
          n1 = r4 div 365; r1 = r4 mod 365;
          year = n400 * 400 + 1 + n100 * 100 + n4 * 4 + n1
      in if n1 = 4 \<or> n100 = 4 then (year - 1, 12, 31)
         else (let leapyear = (n1 = 3 \<and> (n4 \<noteq> 24 \<or> n100 = 3));
                   month = (r1 + 50) div 32;
                   preceding = days_before_month ! month
                                 + (if month > 2 \<and> leapyear then 1 else 0)
               in if preceding > r1
                  then (let month' = month - 1;
                            preceding' = preceding
                                           - (days_in_month ! month'
                                                + (if month' = 2 \<and> leapyear then 1 else 0))
                        in (year, month', r1 - preceding' + 1))
                  else (year, month, r1 - preceding + 1)))"

definition two_digits :: "nat \<Rightarrow> ustring" where
  "two_digits k = [48 + k div 10 mod 10, 48 + k mod 10]"

definition strftime_dmy :: "time \<Rightarrow> ustring" where
  "strftime_dmy now =
     (case ord2ymd (nat (now div 86400000000) + 1) of
        (year, month, day) \<Rightarrow> two_digits day @ two_digits month @ two_digits (year mod 100))"

text \<open>
  The first part of \<^verbatim>\<open>create_new_article\<close>: the path the file is written to.
  \<^verbatim>\<open>
  safe_title = "".join(c if c.isalnum() or c in " -_" else "_" for c in title)
  filename = f"{safe_title}.md"
  original_file_path = os.path.join(ARCHIVE_DIR, filename)
  file_path = original_file_path
  \<close>
  followed by the loop above.
\<close>

definition resolved_path :: "(nat \<Rightarrow> bool) \<Rightarrow> filesystem \<Rightarrow> ustring \<Rightarrow> ustring \<Rightarrow> path" where
  "resolved_path isalnum fs date_suffix title' =
     (let safe_title = map (safe_char isalnum) title';
          filename = safe_title @ ustr ''.md'';
          original_file_path = path_join ARCHIVE_DIR filename
      in free_file_path fs safe_title date_suffix 1 original_file_path)"

text \<open>
  The second part: the write, and on success the new record. The source computes
  \<open>date_suffix\<close> as \<^verbatim>\<open>now.strftime("%d%m%y")\<close>, that is \<open>strftime_dmy now\<close>; the
  properties that do not depend on what the suffix is hold for any string in its place.
\<close>

definition create_new_article ::
  "(nat \<Rightarrow> bool) \<Rightarrow> store \<Rightarrow> filesystem \<Rightarrow> time \<Rightarrow> ustring \<Rightarrow> ustring \<Rightarrow> ustring
     \<Rightarrow> store \<times> filesystem \<times> (py_error + article)" where
  "create_new_article isalnum st fs now date_suffix title' content' =
     (let p = resolved_path isalnum fs date_suffix title'
      in case write_file fs p content' of
           WriteOSError fs' \<Rightarrow> (st, fs', Inl (RuntimeError (ustr ''Failed to save article'')))
         | WriteEncodeError fs' \<Rightarrow> (st, fs', Inl UnicodeEncodeError)
         | Written fs' \<Rightarrow>
             (let a = \<lparr>id' = next_id st, title = title', content = content',
                       created_at = now, updated_at = now, file_path = Some p,
                       last_accessed = now\<rparr>
              in (st\<lparr>db := db st @ [a], next_id := next_id st + 1\<rparr>, fs', Inr a)))"

subsection \<open>Updating: update_article_db\<close>

text \<open>
  \<^verbatim>\<open>
  for article in db:
      if article.id == article_id:
          article.title = title
          article.content = content
          article.updated_at = datetime.now()
          article.last_accessed = datetime.now()
          if article.file_path:
              try:
                  with open(article.file_path, 'w', encoding='utf-8') as f:
                      f.write(content)
              except OSError as e:
                  raise RuntimeError("Failed to update article")
          return article
  return None
  \<close>
  \<open>now1\<close> and \<open>now2\<close> are the two readings of the clock. The list that comes back
  is the list after the call, whether it returned or raised.
\<close>

fun update_article_loop ::
  "filesystem \<Rightarrow> time \<Rightarrow> time \<Rightarrow> int \<Rightarrow> ustring \<Rightarrow> ustring \<Rightarrow> article list
     \<Rightarrow> article list \<times> filesystem \<times> (py_error + article option)" where
  "update_article_loop fs now1 now2 article_id title' content' [] = ([], fs, Inr None)"
| "update_article_loop fs now1 now2 article_id title' content' (a # as) =
     (if id' a = article_id then
        (let a' = a\<lparr>title := title', content := content',
                     updated_at := now1, last_accessed := now2\<rparr>
         in case backing_file a' of
              None \<Rightarrow> (a' # as, fs, Inr (Some a'))
            | Some p \<Rightarrow>
                (case write_file fs p content' of
                   Written fs' \<Rightarrow> (a' # as, fs', Inr (Some a'))
                 | WriteOSError fs' \<Rightarrow>
                     (a' # as, fs', Inl (RuntimeError (ustr ''Failed to update article'')))
                 | WriteEncodeError fs' \<Rightarrow> (a' # as, fs', Inl UnicodeEncodeError)))
      else (case update_article_loop fs now1 now2 article_id title' content' as of
              (as', fs', r) \<Rightarrow> (a # as', fs', r)))"

definition update_article_db ::
  "store \<Rightarrow> filesystem \<Rightarrow> time \<Rightarrow> time \<Rightarrow> int \<Rightarrow> ustring \<Rightarrow> ustring
     \<Rightarrow> store \<times> filesystem \<times> (py_error + article option)" where
  "update_article_db st fs now1 now2 article_id title' content' =
     (case update_article_loop fs now1 now2 article_id title' content' (db st) of
        (as', fs', r) \<Rightarrow> (st\<lparr>db := as'\<rparr>, fs', r))"

subsection \<open>Deleting: delete_article_db\<close>

text \<open>\<^verbatim>\<open>os.remove\<close> inside \<^verbatim>\<open>try ... except OSError\<close>: a failure is logged only.\<close>

definition remove_file :: "filesystem \<Rightarrow> path \<Rightarrow> filesystem" where
  "remove_file fs p = (if remove_fails fs p then fs else fs\<lparr>files := fmdrop p (files fs)\<rparr>)"

text \<open>
  \<^verbatim>\<open>
  for article in db[:]:
      if article.id == article_id:
          if article.file_path and os.path.exists(article.file_path):
              try: os.remove(article.file_path)
              except OSError as e: logger.error(...)
          db.remove(article)
          return
  logger.warning(...)
  \<close>
  \<^verbatim>\<open>db.remove(article)\<close> takes out the object the loop stands on.
\<close>

fun delete_article_loop :: "filesystem \<Rightarrow> int \<Rightarrow> article list \<Rightarrow> article list \<times> filesystem" where
  "delete_article_loop fs article_id [] = ([], fs)"
| "delete_article_loop fs article_id (a # as) =
     (if id' a = article_id then
        (as, case backing_file a of
               None \<Rightarrow> fs
             | Some p \<Rightarrow> if path_exists fs p then remove_file fs p else fs)
      else (case delete_article_loop fs article_id as of (as', fs') \<Rightarrow> (a # as', fs')))"

definition delete_article_db :: "store \<Rightarrow> filesystem \<Rightarrow> int \<Rightarrow> store \<times> filesystem" where
  "delete_article_db st fs article_id =
     (case delete_article_loop fs article_id (db st) of (as', fs') \<Rightarrow> (st\<lparr>db := as'\<rparr>, fs'))"

subsection \<open>The sweeper: cleanup_cache\<close>

text \<open>
  \<^verbatim>\<open>
  if article.file_path and article.content:
      if now - article.last_accessed > CACHE_EXPIRY:
          article.content = ""
  \<close>
\<close>

definition sweep_article :: "time \<Rightarrow> article \<Rightarrow> article" where
  "sweep_article now a =
     (if backing_file a \<noteq> None \<and> content a \<noteq> [] then
        (if now - last_accessed a > CACHE_EXPIRY then a\<lparr>content := []\<rparr> else a)
      else a)"

definition cleanup_cache :: "store \<Rightarrow> time \<Rightarrow> store" where
  "cleanup_cache st now = st\<lparr>db := map (sweep_article now) (db st)\<rparr>"

subsection \<open>Startup: init_archive\<close>

text \<open>
  What the environment answers for one file of \<^verbatim>\<open>glob.glob("archive/*.md")\<close>: its
  path, \<^verbatim>\<open>getctime\<close> and \<^verbatim>\<open>getmtime\<close> (\<open>None\<close> when they raise \<^verbatim>\<open>OSError\<close>),
  the clock in the \<^verbatim>\<open>except\<close> branch and the clock for \<^verbatim>\<open>last_accessed\<close>.
\<close>

record found_file =
  found_path :: path
  found_times :: "(time \<times> time) option"
  now_fallback :: time
  now_accessed :: time

text \<open>\<^verbatim>\<open>os.path.basename\<close> and the root of \<^verbatim>\<open>os.path.splitext\<close> (POSIX).\<close>

definition basename :: "path \<Rightarrow> ustring" where
  "basename p = rev (takeWhile (\<lambda>c. c \<noteq> 47) (rev p))"

definition splitext_root :: "ustring \<Rightarrow> ustring" where
  "splitext_root name =
     (if 46 \<notin> set name then name
      else (let root = rev (tl (dropWhile (\<lambda>c. c \<noteq> 46) (rev name)))
            in if list_ex (\<lambda>c. c \<noteq> 46) root then root else name))"

definition add_archived :: "store \<Rightarrow> found_file \<Rightarrow> store" where
  "add_archived st f =
     (let (created, updated) =
            (case found_times f of
               Some (ctime, mtime) \<Rightarrow> (ctime, mtime)
             | None \<Rightarrow> (now_fallback f, now_fallback f));
          a = \<lparr>id' = next_id st, title = splitext_root (basename (found_path f)),
               content = [], created_at = created, updated_at = updated,
               file_path = Some (found_path f), last_accessed = now_accessed f\<rparr>
      in st\<lparr>db := db st @ [a], next_id := next_id st + 1\<rparr>)"

text \<open>
  \<open>None\<close>: the archive directory did not exist; it is created and the scan returns
  (\<^verbatim>\<open>os.makedirs\<close> raising would end the startup and is not modelled).
  \<open>Some found\<close>: the files found, in the order of the enumeration.
\<close>

definition init_archive :: "store \<Rightarrow> found_file list option \<Rightarrow> store" where
  "init_archive st scan = (case scan of None \<Rightarrow> st | Some found \<Rightarrow> foldl add_archived st found)"

subsection \<open>Sequences of calls\<close>

text \<open>
  One call of the store, with what the environment supplies for it. \<open>Outside\<close> is any
  change of the archive directory made by someone else between two calls.
\<close>

datatype request =
    Scan "found_file list option"
  | Create time ustring ustring ustring
  | Get time int
  | Update time time int ustring ustring
  | Delete int
  | Sweep time
  | Outside filesystem

text \<open>The state after one call, and the ids the call gave to new articles.\<close>

fun step :: "(nat \<Rightarrow> bool) \<Rightarrow> store \<times> filesystem \<Rightarrow> request \<Rightarrow> (store \<times> filesystem) \<times> int list" where
  "step isalnum (st, fs) (Scan scan) =
     (let st' = init_archive st scan
      in ((st', fs), map id' (drop (length (db st)) (db st'))))"
| "step isalnum (st, fs) (Create now date_suffix title' content') =
     (case create_new_article isalnum st fs now date_suffix title' content' of
        (st', fs', Inr a) \<Rightarrow> ((st', fs'), [id' a])
      | (st', fs', Inl e) \<Rightarrow> ((st', fs'), []))"
| "step isalnum (st, fs) (Get now article_id) =
     (case get_article st fs now article_id of (st', r, reads) \<Rightarrow> ((st', fs), []))"
| "step isalnum (st, fs) (Update now1 now2 article_id title' content') =
     (case update_article_db st fs now1 now2 article_id title' content' of
        (st', fs', r) \<Rightarrow> ((st', fs'), []))"
| "step isalnum (st, fs) (Delete article_id) = (delete_article_db st fs article_id, [])"
| "step isalnum (st, fs) (Sweep now) = ((cleanup_cache st now, fs), [])"
| "step isalnum (st, fs) (Outside fs') = ((st, fs'), [])"

fun run :: "(nat \<Rightarrow> bool) \<Rightarrow> store \<times> filesystem \<Rightarrow> request list \<Rightarrow> (store \<times> filesystem) \<times> int list" where
  "run isalnum w [] = (w, [])"
| "run isalnum w (r # rs) =
     (case step isalnum w r of
        (w', ids) \<Rightarrow> (case run isalnum w' rs of (w'', ids') \<Rightarrow> (w'', ids @ ids')))"

text \<open>
  What every reachable store satisfies: no two articles share an id, and every id in
  use is below the counter.
\<close>

definition store_inv :: "store \<Rightarrow> bool" where
  "store_inv st = (distinct (map id' (db st)) \<and> list_all (\<lambda>a. id' a < next_id st) (db st))"

text \<open>The first article with the given id, as every loop of the store finds it.\<close>

definition find_article :: "article list \<Rightarrow> int \<Rightarrow> article option" where
  "find_article as article_id = find (\<lambda>a. id' a = article_id) as"


text \<open>\<^verbatim>\<open>str.isalnum\<close> on ASCII, for the examples.\<close>

definition ascii_isalnum :: "nat \<Rightarrow> bool" where
  "ascii_isalnum c = ((48 \<le> c \<and> c \<le> 57) \<or> (65 \<le> c \<and> c \<le> 90) \<or> (97 \<le> c \<and> c \<le> 122))"

text \<open>A file system without files on which nothing fails.\<close>

definition empty_fs :: filesystem where
  "empty_fs = \<lparr>files = fmempty, write_fails = (\<lambda>p. False), write_breaks = (\<lambda>p. None),
               read_fails = (\<lambda>p. False), remove_fails = (\<lambda>p. False)\<rparr>"

text \<open>
  The sweeper as the specification words it: an article with a backing file and non-empty
  content in memory, whose \<^verbatim>\<open>last_accessed\<close> is older than the expiry window.
\<close>

definition has_stale_content :: "time \<Rightarrow> article \<Rightarrow> bool" where
  "has_stale_content now a =
     (backing_file a \<noteq> None \<and> content a \<noteq> [] \<and> now - last_accessed a > CACHE_EXPIRY)"

section \<open>Properties\<close>

subsection \<open>Lookup by id\<close>

lemma find_article_Nil [simp]: "find_article [] n = None"
  by (simp add: find_article_def)

lemma find_article_Cons [simp]:
  "find_article (a # as) n = (if id' a = n then Some a else find_article as n)"
  by (simp add: find_article_def)

lemma find_article_None_iff: "find_article as n = None \<longleftrightarrow> n \<notin> id' ` set as"
  by (induction as) auto

lemma find_article_Some_id: "find_article as n = Some a \<Longrightarrow> id' a = n \<and> a \<in> set as"
  by (induction as) (auto split: if_splits)

lemma find_article_append:
  "find_article (as @ bs) n = (case find_article as n of None \<Rightarrow> find_article bs n | Some a \<Rightarrow> Some a)"
  by (induction as) auto

lemma find_article_fresh:
  assumes "list_all (\<lambda>b. id' b < id' a) as"
  shows "find_article (as @ [a]) (id' a) = Some a"
proof -
  have "id' a \<notin> id' ` set as"
    using assms by (auto simp: list_all_iff)
  then have "find_article as (id' a) = None"
    by (simp add: find_article_None_iff)
  then show ?thesis
    by (simp add: find_article_append)
qed

subsection \<open>get_article\<close>

lemma load_content_cached: "content a \<noteq> [] \<Longrightarrow> load_content fs a = (Inr a, [])"
  by (simp add: load_content_def split: option.splits)

lemma load_content_no_file: "backing_file a = None \<Longrightarrow> load_content fs a = (Inr a, [])"
  by (simp add: load_content_def)


lemma load_content_id: "load_content fs a = (Inr a1, reads) \<Longrightarrow> id' a1 = id' a"
  by (auto simp: load_content_def split: option.splits if_splits read_result.splits)

lemma load_content_file: "load_content fs a = (Inr a1, reads) \<Longrightarrow> backing_file a1 = backing_file a"
  by (auto simp: load_content_def backing_file_def split: option.splits if_splits read_result.splits)

lemma get_article_loop_absent:
  "find_article as n = None \<Longrightarrow> get_article_loop fs now n as = (as, Inr None, [])"
  by (induction as) (auto split: if_splits)


lemma get_article_loop_present:
  "find_article as n = Some a \<Longrightarrow> load_content fs a = (Inr a1, reads) \<Longrightarrow>
   \<exists>as'. get_article_loop fs now n as = (as', Inr (Some (a1\<lparr>last_accessed := now\<rparr>)), reads)
        \<and> find_article as' n = Some (a1\<lparr>last_accessed := now\<rparr>)
        \<and> map id' as' = map id' as"
proof (induction as)
  case Nil
  then show ?case by simp
next
  case (Cons b bs)
  show ?case
  proof (cases "id' b = n")
    case True
    with Cons.prems have "b = a" by simp
    moreover from Cons.prems(2) have "id' a1 = id' a"
      by (rule load_content_id)
    ultimately show ?thesis
      using True Cons.prems(2) by (simp add: Let_def)
  next
    case False
    with Cons.prems have "find_article bs n = Some a" by simp
    from Cons.IH [OF this Cons.prems(2)] obtain bs' where
      "get_article_loop fs now n bs = (bs', Inr (Some (a1\<lparr>last_accessed := now\<rparr>)), reads)"
      "find_article bs' n = Some (a1\<lparr>last_accessed := now\<rparr>)" "map id' bs' = map id' bs"
      by blast
    with False show ?thesis by simp
  qed
qed

lemma get_article_loop_ids: "map id' (fst (get_article_loop fs now n as)) = map id' as"
proof (induction as)
  case Nil
  show ?case by simp
next
  case (Cons b bs)
  show ?case
  proof (cases "id' b = n")
    case True
    show ?thesis
    proof (cases "load_content fs b")
      case (Pair r reads)
      show ?thesis
      proof (cases r)
        case (Inl e)
        with True Pair show ?thesis by simp
      next
        case (Inr a1)
        with Pair have "id' a1 = id' b"
          using load_content_id by blast
        with True Pair Inr show ?thesis by (simp add: Let_def)
      qed
    qed
  next
    case False
    with Cons.IH show ?thesis
      by (cases "get_article_loop fs now n bs") simp
  qed
qed


subsection \<open>create\<close>

text \<open>The definitions a concrete call unfolds to.\<close>

lemmas eval_defs =
  create_new_article_def resolved_path_def safe_char_def ascii_isalnum_def ustr_def
  path_join_def ARCHIVE_DIR_def free_file_path.simps path_exists_def suffixed_path_def
  str_nat.simps write_file_def encodable_def empty_fs_def initial_store_def
  get_article_def load_content_def backing_file_def read_file_def store_inv_def
  update_article_db_def delete_article_db_def remove_file_def cleanup_cache_def
  sweep_article_def CACHE_EXPIRY_def Let_def

lemma create_success:
  assumes "create_new_article isalnum st fs now date_suffix title' content' = (st1, fs1, Inr a)"
  shows "a = \<lparr>id' = next_id st, title = title', content = content', created_at = now,
              updated_at = now,
              file_path = Some (resolved_path isalnum fs date_suffix title'),
              last_accessed = now\<rparr>"
    and "st1 = st\<lparr>db := db st @ [a], next_id := next_id st + 1\<rparr>"
    and "fs1 = fs\<lparr>files := fmupd (resolved_path isalnum fs date_suffix title') (Utf8 content') (files fs)\<rparr>"
  using assms
  by (auto simp: create_new_article_def Let_def write_file_def split: if_splits option.splits)

lemma create_failure:
  "create_new_article isalnum st fs now date_suffix title' content' = (st1, fs1, Inl e) \<Longrightarrow> st1 = st"
  by (auto simp: create_new_article_def Let_def write_file_def split: if_splits option.splits)

text \<open>
  C1. After a successful \<^verbatim>\<open>create_new_article(t, c)\<close> with non-empty \<open>c\<close>, in a store
  whose ids are distinct and below the counter, \<^verbatim>\<open>get_article\<close> of the new id returns an article
  with content \<open>c\<close> and opens no file, whatever the file system holds by then.
\<close>

theorem create_then_get_cached:
  assumes inv: "store_inv st"
    and nonempty: "content' \<noteq> []"
    and created: "create_new_article isalnum st fs now date_suffix title' content' = (st1, fs1, Inr a)"
  shows "\<exists>st2 a'. get_article st1 fs2 now2 (id' a) = (st2, Inr (Some a'), [])
                 \<and> content a' = content'"
proof -
  note c = create_success [OF created]
  have ida: "id' a = next_id st" and ca: "content a = content'"
    by (simp_all add: c(1))
  have db1: "db st1 = db st @ [a]"
    by (simp add: c(2))
  from inv have "list_all (\<lambda>b. id' b < id' a) (db st)"
    by (simp add: store_inv_def ida)
  then have found: "find_article (db st1) (id' a) = Some a"
    unfolding db1 by (rule find_article_fresh)
  from nonempty ca have "load_content fs2 a = (Inr a, [])"
    by (simp add: load_content_cached)
  from get_article_loop_present [OF found this, of now2] obtain as' where
    "get_article_loop fs2 now2 (id' a) (db st1) = (as', Inr (Some (a\<lparr>last_accessed := now2\<rparr>)), [])"
    by blast
  then have "get_article st1 fs2 now2 (id' a)
               = (st1\<lparr>db := as'\<rparr>, Inr (Some (a\<lparr>last_accessed := now2\<rparr>)), [])"
    by (simp add: get_article_def)
  with ca show ?thesis by simp
qed

theorem create_then_get_cached_witness:
  "store_inv initial_store \<and> ustr ''x'' \<noteq> []
   \<and> create_new_article ascii_isalnum initial_store empty_fs 7 (ustr ''010203'') (ustr ''a'') (ustr ''x'')
       = (\<lparr>db = [\<lparr>id' = 1, title = ustr ''a'', content = ustr ''x'', created_at = 7,
                   updated_at = 7, file_path = Some (ustr ''archive/a.md''),
                   last_accessed = 7\<rparr>], next_id = 2\<rparr>,
          empty_fs\<lparr>files := fmupd (ustr ''archive/a.md'') (Utf8 (ustr ''x'')) fmempty\<rparr>,
          Inr \<lparr>id' = 1, title = ustr ''a'', content = ustr ''x'', created_at = 7,
                updated_at = 7, file_path = Some (ustr ''archive/a.md''),
                last_accessed = 7\<rparr>)
   \<and> (\<exists>st2 a'. get_article
          \<lparr>db = [\<lparr>id' = 1, title = ustr ''a'', content = ustr ''x'', created_at = 7,
                   updated_at = 7, file_path = Some (ustr ''archive/a.md''),
                   last_accessed = 7\<rparr>], next_id = 2\<rparr> empty_fs 9 1
            = (st2, Inr (Some a'), []) \<and> content a' = ustr ''x'')"
proof -
  have h1: "store_inv initial_store"
    by (simp add: store_inv_def initial_store_def)
  have h2: "ustr ''x'' \<noteq> []"
    by (simp add: ustr_def)
  have h3: "create_new_article ascii_isalnum initial_store empty_fs 7 (ustr ''010203'') (ustr ''a'') (ustr ''x'')
       = (\<lparr>db = [\<lparr>id' = 1, title = ustr ''a'', content = ustr ''x'', created_at = 7,
                   updated_at = 7, file_path = Some (ustr ''archive/a.md''),
                   last_accessed = 7\<rparr>], next_id = 2\<rparr>,
          empty_fs\<lparr>files := fmupd (ustr ''archive/a.md'') (Utf8 (ustr ''x'')) fmempty\<rparr>,
          Inr \<lparr>id' = 1, title = ustr ''a'', content = ustr ''x'', created_at = 7,
                updated_at = 7, file_path = Some (ustr ''archive/a.md''),
                last_accessed = 7\<rparr>)"
    by (simp add: eval_defs)
  show ?thesis
    using h1 h2 h3 create_then_get_cached [OF h1 h2 h3, of empty_fs 9] by simp
qed

text \<open>
  C1 as stated, for every content, fails for the empty content: the article is created
  with id 1, and \<^verbatim>\<open>get_article(1)\<close> right after it opens \<^verbatim>\<open>archive/a.md\<close>, because an
  empty content is what \<^verbatim>\<open>get_article\<close> takes for "not loaded".
\<close>

theorem create_empty_then_get_reads:
  "snd (snd (create_new_article ascii_isalnum initial_store empty_fs 7 (ustr ''010203'') (ustr ''a'') []))
     = Inr \<lparr>id' = 1, title = ustr ''a'', content = [], created_at = 7, updated_at = 7,
            file_path = Some (ustr ''archive/a.md''), last_accessed = 7\<rparr>
   \<and> snd (snd (get_article
        (fst (create_new_article ascii_isalnum initial_store empty_fs 7 (ustr ''010203'') (ustr ''a'') []))
        (fst (snd (create_new_article ascii_isalnum initial_store empty_fs 7 (ustr ''010203'') (ustr ''a'') [])))
        9 1))
     = [ustr ''archive/a.md'']"
  by (simp add: eval_defs)


subsection \<open>update\<close>

lemma update_article_loop_absent:
  "find_article as n = None \<Longrightarrow>
   update_article_loop fs now1 now2 n title' content' as = (as, fs, Inr None)"
  by (induction as) (auto split: if_splits)

lemma write_file_OSError:
  "write_file fs p s = WriteOSError fs' \<longleftrightarrow>
     (write_fails fs p \<and> fs' = fs)
     \<or> (\<not> write_fails fs p \<and> encodable s
         \<and> (\<exists>d. write_breaks fs p = Some d \<and> fs' = fs\<lparr>files := fmupd p d (files fs)\<rparr>))"
  by (auto simp: write_file_def split: option.splits)

lemma update_article_loop_write_fails:
  "find_article as n = Some a \<Longrightarrow> backing_file a = Some p \<Longrightarrow>
   write_file fs p content' = WriteOSError fs' \<Longrightarrow>
   \<exists>as'. update_article_loop fs now1 now2 n title' content' as
           = (as', fs', Inl (RuntimeError (ustr ''Failed to update article'')))
        \<and> find_article as' n
           = Some (a\<lparr>title := title', content := content', updated_at := now1,
                     last_accessed := now2\<rparr>)"
proof (induction as)
  case Nil
  then show ?case by simp
next
  case (Cons b bs)
  show ?case
  proof (cases "id' b = n")
    case True
    with Cons.prems have "b = a" by simp
    with True Cons.prems(2,3) show ?thesis
      by (simp add: Let_def backing_file_def)
  next
    case False
    with Cons.prems have "find_article bs n = Some a" by simp
    from Cons.IH [OF this Cons.prems(2,3)] False show ?thesis
      by auto
  qed
qed

lemma update_article_loop_ids:
  "map id' (fst (update_article_loop fs now1 now2 n title' content' as)) = map id' as"
proof (induction as)
  case Nil
  show ?case by simp
next
  case (Cons b bs)
  show ?case
  proof (cases "id' b = n")
    case True
    then show ?thesis
      by (simp add: Let_def split: option.splits write_result.splits)
  next
    case False
    with Cons.IH show ?thesis
      by (cases "update_article_loop fs now1 now2 n title' content' bs") simp
  qed
qed

text \<open>
  C2. Let the article with id \<open>n\<close> have a backing file, and let the write of that file
  raise an \<^verbatim>\<open>OSError\<close>: either \<^verbatim>\<open>open\<close> raises and the file is untouched, or
  \<^verbatim>\<open>f.write\<close> or the closing raises after the file was truncated. Then
  \<^verbatim>\<open>update_article_db\<close> raises \<^verbatim>\<open>RuntimeError("Failed to update article")\<close>, and the
  record in the store already holds the new title, content, \<^verbatim>\<open>updated_at\<close> and
  \<^verbatim>\<open>last_accessed\<close>; the id counter is as before.
\<close>

theorem update_write_failure_mutates:
  assumes "find_article (db st) n = Some a"
    and "backing_file a = Some p"
    and "write_file fs p content' = WriteOSError fs'"
  shows "\<exists>st'. update_article_db st fs now1 now2 n title' content'
                 = (st', fs', Inl (RuntimeError (ustr ''Failed to update article'')))
              \<and> find_article (db st') n
                 = Some (a\<lparr>title := title', content := content', updated_at := now1,
                           last_accessed := now2\<rparr>)
              \<and> next_id st' = next_id st
              \<and> ((write_fails fs p \<and> fs' = fs)
                  \<or> (\<exists>d. write_breaks fs p = Some d
                          \<and> fs' = fs\<lparr>files := fmupd p d (files fs)\<rparr>))"
proof -
  from update_article_loop_write_fails [OF assms, of now1 now2 title']
  obtain as' where
    "update_article_loop fs now1 now2 n title' content' (db st)
       = (as', fs', Inl (RuntimeError (ustr ''Failed to update article'')))"
    "find_article as' n
       = Some (a\<lparr>title := title', content := content', updated_at := now1,
                 last_accessed := now2\<rparr>)"
    by blast
  moreover from assms(3) have "(write_fails fs p \<and> fs' = fs)
      \<or> (\<exists>d. write_breaks fs p = Some d \<and> fs' = fs\<lparr>files := fmupd p d (files fs)\<rparr>)"
    by (auto simp: write_file_OSError)
  ultimately show ?thesis
    by (simp add: update_article_db_def)
qed

text \<open>
  Two cases of it. In the first \<^verbatim>\<open>open\<close> raises and the file keeps its old content;
  in the second the write raises after \<^verbatim>\<open>open\<close> and the file is left empty.
\<close>

theorem update_write_failure_mutates_witness:
  "find_article (db \<lparr>db = [\<lparr>id' = 1, title = ustr ''a'', content = ustr ''x'', created_at = 7,
              updated_at = 7, file_path = Some (ustr ''archive/a.md''), last_accessed = 7\<rparr>], next_id = 2\<rparr>) 1
     = Some \<lparr>id' = 1, title = ustr ''a'', content = ustr ''x'', created_at = 7,
              updated_at = 7, file_path = Some (ustr ''archive/a.md''), last_accessed = 7\<rparr>
   \<and> backing_file \<lparr>id' = 1, title = ustr ''a'', content = ustr ''x'', created_at = 7,
              updated_at = 7, file_path = Some (ustr ''archive/a.md''), last_accessed = 7\<rparr>
       = Some (ustr ''archive/a.md'')
   \<and> write_file (empty_fs\<lparr>files := fmupd (ustr ''archive/a.md'') (Utf8 (ustr ''x'')) fmempty,
                 write_fails := (\<lambda>p. True)\<rparr>) (ustr ''archive/a.md'') (ustr ''y'')
       = WriteOSError (empty_fs\<lparr>files := fmupd (ustr ''archive/a.md'') (Utf8 (ustr ''x'')) fmempty,
                 write_fails := (\<lambda>p. True)\<rparr>)
   \<and> (\<exists>st'. update_article_db \<lparr>db = [\<lparr>id' = 1, title = ustr ''a'', content = ustr ''x'', created_at = 7,
              updated_at = 7, file_path = Some (ustr ''archive/a.md''), last_accessed = 7\<rparr>], next_id = 2\<rparr>
          (empty_fs\<lparr>files := fmupd (ustr ''archive/a.md'') (Utf8 (ustr ''x'')) fmempty,
                 write_fails := (\<lambda>p. True)\<rparr>) 20 21 1 (ustr ''b'') (ustr ''y'')
          = (st', (empty_fs\<lparr>files := fmupd (ustr ''archive/a.md'') (Utf8 (ustr ''x'')) fmempty,
                 write_fails := (\<lambda>p. True)\<rparr>),
             Inl (RuntimeError (ustr ''Failed to update article'')))
        \<and> find_article (db st') 1
          = Some \<lparr>id' = 1, title = ustr ''b'', content = ustr ''y'', created_at = 7,
              updated_at = 20, file_path = Some (ustr ''archive/a.md''), last_accessed = 21\<rparr>)
   \<and> write_file (empty_fs\<lparr>files := fmupd (ustr ''archive/a.md'') (Utf8 (ustr ''x'')) fmempty,
                 write_breaks := (\<lambda>p. Some (Utf8 []))\<rparr>) (ustr ''archive/a.md'') (ustr ''y'')
       = WriteOSError (empty_fs\<lparr>files := fmupd (ustr ''archive/a.md'') (Utf8 []) fmempty,
                 write_breaks := (\<lambda>p. Some (Utf8 []))\<rparr>)
   \<and> (\<exists>st'. update_article_db \<lparr>db = [\<lparr>id' = 1, title = ustr ''a'', content = ustr ''x'', created_at = 7,
              updated_at = 7, file_path = Some (ustr ''archive/a.md''), last_accessed = 7\<rparr>], next_id = 2\<rparr>
          (empty_fs\<lparr>files := fmupd (ustr ''archive/a.md'') (Utf8 (ustr ''x'')) fmempty,
                 write_breaks := (\<lambda>p. Some (Utf8 []))\<rparr>) 20 21 1 (ustr ''b'') (ustr ''y'')
          = (st', (empty_fs\<lparr>files := fmupd (ustr ''archive/a.md'') (Utf8 []) fmempty,
                 write_breaks := (\<lambda>p. Some (Utf8 []))\<rparr>),
             Inl (RuntimeError (ustr ''Failed to update article'')))
        \<and> find_article (db st') 1
          = Some \<lparr>id' = 1, title = ustr ''b'', content = ustr ''y'', created_at = 7,
              updated_at = 20, file_path = Some (ustr ''archive/a.md''), last_accessed = 21\<rparr>)"
proof -
  let ?a = "\<lparr>id' = 1, title = ustr ''a'', content = ustr ''x'', created_at = 7,
              updated_at = 7, file_path = Some (ustr ''archive/a.md''), last_accessed = 7\<rparr>"
  let ?st = "\<lparr>db = [?a], next_id = 2\<rparr>"
  let ?fs0 = "empty_fs\<lparr>files := fmupd (ustr ''archive/a.md'') (Utf8 (ustr ''x'')) fmempty,
                 write_fails := (\<lambda>p. True)\<rparr>"
  let ?fs1 = "empty_fs\<lparr>files := fmupd (ustr ''archive/a.md'') (Utf8 (ustr ''x'')) fmempty,
                 write_breaks := (\<lambda>p. Some (Utf8 []))\<rparr>"
  let ?fs1b = "empty_fs\<lparr>files := fmupd (ustr ''archive/a.md'') (Utf8 []) fmempty,
                 write_breaks := (\<lambda>p. Some (Utf8 []))\<rparr>"
  have h1: "find_article (db ?st) 1 = Some ?a"
    by simp
  have h2: "backing_file ?a = Some (ustr ''archive/a.md'')"
    by (simp add: backing_file_def ustr_def)
  have h3: "write_file ?fs0 (ustr ''archive/a.md'') (ustr ''y'') = WriteOSError ?fs0"
    by (simp add: write_file_def empty_fs_def)
  have h4: "write_file ?fs1 (ustr ''archive/a.md'') (ustr ''y'') = WriteOSError ?fs1b"
    by (simp add: write_file_def empty_fs_def encodable_def ustr_def fmap_ext)
  let ?a2 = "\<lparr>id' = 1, title = ustr ''b'', content = ustr ''y'', created_at = 7,
              updated_at = 20, file_path = Some (ustr ''archive/a.md''), last_accessed = 21\<rparr>"
  let ?err = "Inl (RuntimeError (ustr ''Failed to update article'')) :: py_error + article option"
  have a2: "?a\<lparr>title := ustr ''b'', content := ustr ''y'', updated_at := 20, last_accessed := 21\<rparr> = ?a2"
    by simp
  from update_write_failure_mutates [OF h1 h2 h3, of 20 21 "ustr ''b''"]
  have e0: "\<exists>st'. update_article_db ?st ?fs0 20 21 1 (ustr ''b'') (ustr ''y'') = (st', ?fs0, ?err)
      \<and> find_article (db st') 1 = Some ?a2"
    unfolding a2 by blast
  from update_write_failure_mutates [OF h1 h2 h4, of 20 21 "ustr ''b''"]
  have e1: "\<exists>st'. update_article_db ?st ?fs1 20 21 1 (ustr ''b'') (ustr ''y'') = (st', ?fs1b, ?err)
      \<and> find_article (db st') 1 = Some ?a2"
    unfolding a2 by blast
  from h1 h2 h3 h4 e0 e1 show ?thesis
    by (intro conjI)
qed

text \<open>
  C9. For an id that no article of the store has, \<^verbatim>\<open>update_article_db\<close> returns
  \<^verbatim>\<open>None\<close> and leaves the store (every record and the id counter) and the file system
  as they were.
\<close>

theorem update_absent_unchanged:
  assumes "n \<notin> id' ` set (db st)"
  shows "update_article_db st fs now1 now2 n title' content' = (st, fs, Inr None)"
proof -
  from assms have "find_article (db st) n = None"
    by (simp add: find_article_None_iff)
  then show ?thesis
    by (simp add: update_article_db_def update_article_loop_absent)
qed

theorem update_absent_unchanged_witness:
  "(2::int) \<notin> id' ` set (db \<lparr>db = [\<lparr>id' = 1, title = ustr ''a'', content = ustr ''x'',
        created_at = 7, updated_at = 7, file_path = Some (ustr ''archive/a.md''),
        last_accessed = 7\<rparr>], next_id = 2\<rparr>)
   \<and> update_article_db
        \<lparr>db = [\<lparr>id' = 1, title = ustr ''a'', content = ustr ''x'',
        created_at = 7, updated_at = 7, file_path = Some (ustr ''archive/a.md''),
        last_accessed = 7\<rparr>], next_id = 2\<rparr> empty_fs 20 21 2 (ustr ''b'') (ustr ''y'')
      = (\<lparr>db = [\<lparr>id' = 1, title = ustr ''a'', content = ustr ''x'',
        created_at = 7, updated_at = 7, file_path = Some (ustr ''archive/a.md''),
        last_accessed = 7\<rparr>], next_id = 2\<rparr>, empty_fs, Inr None)"
proof -
  let ?st = "\<lparr>db = [\<lparr>id' = 1, title = ustr ''a'', content = ustr ''x'',
        created_at = 7, updated_at = 7, file_path = Some (ustr ''archive/a.md''),
        last_accessed = 7\<rparr>], next_id = 2\<rparr>"
  have h: "(2::int) \<notin> id' ` set (db ?st)"
    by simp
  show ?thesis
    using h update_absent_unchanged [OF h, of empty_fs 20 21 "ustr ''b''" "ustr ''y''"]
    by simp
qed

text \<open>
  C3. When the write of the resolved path raises an \<^verbatim>\<open>OSError\<close> (\<^verbatim>\<open>open\<close> raises, or
  \<^verbatim>\<open>f.write\<close> or the closing raises after the file was created),
  \<^verbatim>\<open>create_new_article\<close> raises \<^verbatim>\<open>RuntimeError("Failed to save article")\<close> and the store
  is the one before the call: no record is added and \<^verbatim>\<open>next_id\<close> is not advanced. In
  the second case the file that was created stays on the disk.
\<close>

theorem create_write_failure:
  assumes "write_file fs (resolved_path isalnum fs date_suffix title') content' = WriteOSError fs'"
  shows "create_new_article isalnum st fs now date_suffix title' content'
           = (st, fs', Inl (RuntimeError (ustr ''Failed to save article'')))
       \<and> ((write_fails fs (resolved_path isalnum fs date_suffix title') \<and> fs' = fs)
           \<or> (\<exists>d. write_breaks fs (resolved_path isalnum fs date_suffix title') = Some d
                   \<and> fs' = fs\<lparr>files := fmupd (resolved_path isalnum fs date_suffix title') d
                                          (files fs)\<rparr>))"
proof -
  from assms have "create_new_article isalnum st fs now date_suffix title' content'
           = (st, fs', Inl (RuntimeError (ustr ''Failed to save article'')))"
    by (simp add: create_new_article_def)
  moreover from assms have
    "(write_fails fs (resolved_path isalnum fs date_suffix title') \<and> fs' = fs)
     \<or> (\<exists>d. write_breaks fs (resolved_path isalnum fs date_suffix title') = Some d
             \<and> fs' = fs\<lparr>files := fmupd (resolved_path isalnum fs date_suffix title') d
                                    (files fs)\<rparr>)"
    by (auto simp: write_file_OSError)
  ultimately show ?thesis by simp
qed

text \<open>
  Two cases of it: \<^verbatim>\<open>open\<close> raises and nothing is on the disk; the write raises after
  \<^verbatim>\<open>open\<close> and an empty \<^verbatim>\<open>archive/a.md\<close> is left. The store is the initial one in
  both.
\<close>

theorem create_write_failure_witness:
  "write_file (empty_fs\<lparr>write_fails := (\<lambda>p. True)\<rparr>)
     (resolved_path ascii_isalnum (empty_fs\<lparr>write_fails := (\<lambda>p. True)\<rparr>) (ustr ''010203'') (ustr ''a'')) (ustr ''x'')
     = WriteOSError (empty_fs\<lparr>write_fails := (\<lambda>p. True)\<rparr>)
   \<and> create_new_article ascii_isalnum initial_store (empty_fs\<lparr>write_fails := (\<lambda>p. True)\<rparr>) 7
        (ustr ''010203'') (ustr ''a'') (ustr ''x'')
      = (initial_store, (empty_fs\<lparr>write_fails := (\<lambda>p. True)\<rparr>),
         Inl (RuntimeError (ustr ''Failed to save article'')))
   \<and> write_file (empty_fs\<lparr>write_breaks := (\<lambda>p. Some (Utf8 []))\<rparr>)
     (resolved_path ascii_isalnum (empty_fs\<lparr>write_breaks := (\<lambda>p. Some (Utf8 []))\<rparr>) (ustr ''010203'') (ustr ''a'')) (ustr ''x'')
     = WriteOSError (empty_fs\<lparr>files := fmupd (ustr ''archive/a.md'') (Utf8 []) fmempty,
                write_breaks := (\<lambda>p. Some (Utf8 []))\<rparr>)
   \<and> create_new_article ascii_isalnum initial_store (empty_fs\<lparr>write_breaks := (\<lambda>p. Some (Utf8 []))\<rparr>) 7
        (ustr ''010203'') (ustr ''a'') (ustr ''x'')
      = (initial_store, (empty_fs\<lparr>files := fmupd (ustr ''archive/a.md'') (Utf8 []) fmempty,
                write_breaks := (\<lambda>p. Some (Utf8 []))\<rparr>),
         Inl (RuntimeError (ustr ''Failed to save article'')))"
proof -
  let ?w0 = "empty_fs\<lparr>write_fails := (\<lambda>p. True)\<rparr>"
  let ?w1 = "empty_fs\<lparr>write_breaks := (\<lambda>p. Some (Utf8 []))\<rparr>"
  let ?w1b = "empty_fs\<lparr>files := fmupd (ustr ''archive/a.md'') (Utf8 []) fmempty,
                write_breaks := (\<lambda>p. Some (Utf8 []))\<rparr>"
  have h0: "write_file ?w0 (resolved_path ascii_isalnum ?w0 (ustr ''010203'') (ustr ''a'')) (ustr ''x'')
      = WriteOSError ?w0"
    by (simp add: write_file_def empty_fs_def)
  have h1: "write_file ?w1 (resolved_path ascii_isalnum ?w1 (ustr ''010203'') (ustr ''a'')) (ustr ''x'')
      = WriteOSError ?w1b"
    by (simp add: eval_defs fmap_ext)
  show ?thesis
    using h0 h1 create_write_failure [OF h0, of initial_store 7]
      create_write_failure [OF h1, of initial_store 7]
    by simp
qed

subsection \<open>delete\<close>

lemma delete_article_loop_absent:
  "find_article as n = None \<Longrightarrow> delete_article_loop fs n as = (as, fs)"
  by (induction as) (auto split: if_splits)

lemma delete_article_loop_present:
  "find_article as n = Some a \<Longrightarrow>
   delete_article_loop fs n as
     = (remove1 a as,
        case backing_file a of
          None \<Rightarrow> fs
        | Some p \<Rightarrow> if path_exists fs p then remove_file fs p else fs)"
proof (induction as)
  case Nil
  then show ?case by simp
next
  case (Cons b bs)
  show ?case
  proof (cases "id' b = n")
    case True
    with Cons.prems show ?thesis by simp
  next
    case False
    with Cons.prems have f: "find_article bs n = Some a" by simp
    then have "id' a = n" by (simp add: find_article_Some_id)
    with False have "b \<noteq> a" by auto
    with False Cons.IH [OF f] show ?thesis by simp
  qed
qed

lemma find_article_remove1:
  assumes "distinct (map id' as)" and "find_article as n = Some a"
  shows "find_article (remove1 a as) n = None"
proof -
  from assms(2) have a: "id' a = n" "a \<in> set as"
    by (simp_all add: find_article_Some_id)
  from assms(1) have d: "distinct as" and i: "inj_on id' (set as)"
    by (simp_all add: distinct_map)
  have "n \<notin> id' ` set (remove1 a as)"
  proof
    assume "n \<in> id' ` set (remove1 a as)"
    then obtain b where b: "b \<in> set (remove1 a as)" "id' b = n" by auto
    with d have "b \<in> set as" "b \<noteq> a" by auto
    with i a b(2) show False by (auto dest: inj_onD)
  qed
  then show ?thesis by (simp add: find_article_None_iff)
qed

lemma delete_article_loop_ids:
  "map id' (fst (delete_article_loop fs n as)) = remove1 n (map id' as)"
proof (induction as)
  case Nil
  show ?case by simp
next
  case (Cons b bs)
  then show ?case
    by (cases "delete_article_loop fs n bs") auto
qed

lemma delete_article_loop_subset:
  "set (fst (delete_article_loop fs n as)) \<subseteq> set as"
proof (induction as)
  case Nil
  show ?case by simp
next
  case (Cons b bs)
  then show ?case
    by (cases "delete_article_loop fs n bs") auto
qed

text \<open>
  C8. In a store with distinct ids, \<^verbatim>\<open>delete_article_db\<close> takes the record with the given
  id out of the list, whether \<^verbatim>\<open>os.remove\<close> succeeds or raises (the file is dropped only
  when it exists and the removal succeeds), and a \<^verbatim>\<open>get_article\<close> of that id afterwards
  returns \<^verbatim>\<open>None\<close>. For an id that is not in the store, the store and the file system
  stay as they were.
\<close>

theorem delete_removes_record:
  assumes inv: "store_inv st"
    and del: "delete_article_db st fs n = (st', fs')"
  shows "get_article st' fs2 now n = (st', Inr None, [])
       \<and> next_id st' = next_id st
       \<and> (case find_article (db st) n of
            None \<Rightarrow> st' = st \<and> fs' = fs
          | Some a \<Rightarrow>
              db st' = remove1 a (db st)
              \<and> fs' = (case backing_file a of
                         None \<Rightarrow> fs
                       | Some p \<Rightarrow>
                           if path_exists fs p \<and> \<not> remove_fails fs p
                           then fs\<lparr>files := fmdrop p (files fs)\<rparr> else fs))"
proof (cases "find_article (db st) n")
  case None
  with del have eq: "st' = st" "fs' = fs"
    by (simp_all add: delete_article_db_def delete_article_loop_absent)
  from None have "get_article st fs2 now n = (st, Inr None, [])"
    by (simp add: get_article_def get_article_loop_absent)
  with None eq show ?thesis by simp
next
  case (Some a)
  let ?fs = "case backing_file a of
               None \<Rightarrow> fs
             | Some p \<Rightarrow> if path_exists fs p then remove_file fs p else fs"
  from del Some have st': "st' = st\<lparr>db := remove1 a (db st)\<rparr>" and fs': "fs' = ?fs"
    by (simp_all add: delete_article_db_def delete_article_loop_present)
  from inv have "distinct (map id' (db st))"
    by (simp add: store_inv_def)
  then have "find_article (db st') n = None"
    using Some by (simp add: st' find_article_remove1)
  then have "get_article st' fs2 now n = (st', Inr None, [])"
    by (simp add: get_article_def get_article_loop_absent)
  moreover have "?fs = (case backing_file a of
                         None \<Rightarrow> fs
                       | Some p \<Rightarrow>
                           if path_exists fs p \<and> \<not> remove_fails fs p
                           then fs\<lparr>files := fmdrop p (files fs)\<rparr> else fs)"
    by (simp add: remove_file_def split: option.splits)
  ultimately show ?thesis
    using Some st' fs' by simp
qed

theorem delete_removes_record_witness:
  "store_inv \<lparr>db = [\<lparr>id' = 1, title = ustr ''a'', content = ustr ''x'', created_at = 7,
                     updated_at = 7, file_path = Some (ustr ''archive/a.md''),
                     last_accessed = 7\<rparr>], next_id = 2\<rparr>
   \<and> delete_article_db
        \<lparr>db = [\<lparr>id' = 1, title = ustr ''a'', content = ustr ''x'', created_at = 7,
                updated_at = 7, file_path = Some (ustr ''archive/a.md''),
                last_accessed = 7\<rparr>], next_id = 2\<rparr>
        (empty_fs\<lparr>files := fmupd (ustr ''archive/a.md'') (Utf8 (ustr ''x'')) fmempty,
                  remove_fails := (\<lambda>p. True)\<rparr>) 1
      = (\<lparr>db = [], next_id = 2\<rparr>,
         empty_fs\<lparr>files := fmupd (ustr ''archive/a.md'') (Utf8 (ustr ''x'')) fmempty,
                  remove_fails := (\<lambda>p. True)\<rparr>)
   \<and> get_article \<lparr>db = [], next_id = 2\<rparr> empty_fs 9 1 = (\<lparr>db = [], next_id = 2\<rparr>, Inr None, [])"
proof -
  let ?st = "\<lparr>db = [\<lparr>id' = 1, title = ustr ''a'', content = ustr ''x'', created_at = 7,
                     updated_at = 7, file_path = Some (ustr ''archive/a.md''),
                     last_accessed = 7\<rparr>], next_id = 2\<rparr>"
  let ?fs = "empty_fs\<lparr>files := fmupd (ustr ''archive/a.md'') (Utf8 (ustr ''x'')) fmempty,
                  remove_fails := (\<lambda>p. True)\<rparr>"
  have h1: "store_inv ?st"
    by (simp add: store_inv_def)
  have h2: "delete_article_db ?st ?fs 1 = (\<lparr>db = [], next_id = 2\<rparr>, ?fs)"
    by (simp add: eval_defs)
  show ?thesis
    using h1 h2 delete_removes_record [OF h1 h2, of empty_fs 9] by simp
qed

subsection \<open>sweeper\<close>

lemma sweep_article_spec:
  "sweep_article now a = (if has_stale_content now a then a\<lparr>content := []\<rparr> else a)"
  by (simp add: sweep_article_def has_stale_content_def)

lemma sweep_article_twice:
  "now \<le> now2 \<Longrightarrow> sweep_article now2 (sweep_article now a) = sweep_article now2 a"
  by (simp add: sweep_article_def backing_file_def)

lemma sweep_article_clean: "\<not> has_stale_content now a \<Longrightarrow> sweep_article now a = a"
  by (simp add: sweep_article_spec)

text \<open>
  C5. One run of \<^verbatim>\<open>cleanup_cache\<close> clears the content of exactly the articles that have a
  backing file, a non-empty content and a \<^verbatim>\<open>last_accessed\<close> more than 30 minutes old,
  and changes nothing else. A second run at the same moment changes nothing; a second run
  at a later moment leaves the store as one run at that later moment would. On a store
  without such an article the run changes nothing.
\<close>

theorem cleanup_cache_idempotent:
  "db (cleanup_cache st now)
     = map (\<lambda>a. if has_stale_content now a then a\<lparr>content := []\<rparr> else a) (db st)
   \<and> next_id (cleanup_cache st now) = next_id st
   \<and> cleanup_cache (cleanup_cache st now) now = cleanup_cache st now
   \<and> (now \<le> now2 \<longrightarrow> cleanup_cache (cleanup_cache st now) now2 = cleanup_cache st now2)
   \<and> (list_all (\<lambda>a. \<not> has_stale_content now a) (db st) \<longrightarrow> cleanup_cache st now = st)"
proof -
  have 1: "db (cleanup_cache st now)
     = map (\<lambda>a. if has_stale_content now a then a\<lparr>content := []\<rparr> else a) (db st)"
    by (simp add: cleanup_cache_def sweep_article_spec)
  have 2: "next_id (cleanup_cache st now) = next_id st"
    by (simp add: cleanup_cache_def)
  have 3: "cleanup_cache (cleanup_cache st now) now2 = cleanup_cache st now2" if "now \<le> now2" for now2
    using that by (simp add: cleanup_cache_def sweep_article_twice)
  have 4: "cleanup_cache st now = st" if "list_all (\<lambda>a. \<not> has_stale_content now a) (db st)"
  proof -
    from that have "map (sweep_article now) (db st) = db st"
      by (simp add: list_all_iff map_idI sweep_article_clean)
    then show ?thesis by (simp add: cleanup_cache_def)
  qed
  from 1 2 3 [of now] 3 [of now2] 4 show ?thesis by simp
qed

theorem cleanup_cache_idempotent_witness:
  "db (cleanup_cache
         \<lparr>db = [\<lparr>id' = 1, title = ustr ''a'', content = ustr ''x'', created_at = 7,
                  updated_at = 7, file_path = Some (ustr ''archive/a.md''), last_accessed = 7\<rparr>,
                \<lparr>id' = 2, title = ustr ''b'', content = ustr ''y'', created_at = 8,
                  updated_at = 8, file_path = Some (ustr ''archive/b.md''), last_accessed = 8\<rparr>],
           next_id = 3\<rparr> 1800000008)
     = [\<lparr>id' = 1, title = ustr ''a'', content = [], created_at = 7,
          updated_at = 7, file_path = Some (ustr ''archive/a.md''), last_accessed = 7\<rparr>,
        \<lparr>id' = 2, title = ustr ''b'', content = ustr ''y'', created_at = 8,
          updated_at = 8, file_path = Some (ustr ''archive/b.md''), last_accessed = 8\<rparr>]
   \<and> (1800000008 :: int) \<le> 1800000009
   \<and> cleanup_cache (cleanup_cache
         \<lparr>db = [\<lparr>id' = 1, title = ustr ''a'', content = ustr ''x'', created_at = 7,
                  updated_at = 7, file_path = Some (ustr ''archive/a.md''), last_accessed = 7\<rparr>,
                \<lparr>id' = 2, title = ustr ''b'', content = ustr ''y'', created_at = 8,
                  updated_at = 8, file_path = Some (ustr ''archive/b.md''), last_accessed = 8\<rparr>],
           next_id = 3\<rparr> 1800000008) 1800000009
     = cleanup_cache
         \<lparr>db = [\<lparr>id' = 1, title = ustr ''a'', content = ustr ''x'', created_at = 7,
                  updated_at = 7, file_path = Some (ustr ''archive/a.md''), last_accessed = 7\<rparr>,
                \<lparr>id' = 2, title = ustr ''b'', content = ustr ''y'', created_at = 8,
                  updated_at = 8, file_path = Some (ustr ''archive/b.md''), last_accessed = 8\<rparr>],
           next_id = 3\<rparr> 1800000009
   \<and> list_all (\<lambda>a. \<not> has_stale_content 1800000008 a)
        (db \<lparr>db = [\<lparr>id' = 2, title = ustr ''b'', content = ustr ''y'', created_at = 8,
                     updated_at = 8, file_path = Some (ustr ''archive/b.md''),
                     last_accessed = 8\<rparr>], next_id = 3\<rparr>)
   \<and> cleanup_cache
        \<lparr>db = [\<lparr>id' = 2, title = ustr ''b'', content = ustr ''y'', created_at = 8,
                 updated_at = 8, file_path = Some (ustr ''archive/b.md''),
                 last_accessed = 8\<rparr>], next_id = 3\<rparr> 1800000008
     = \<lparr>db = [\<lparr>id' = 2, title = ustr ''b'', content = ustr ''y'', created_at = 8,
                 updated_at = 8, file_path = Some (ustr ''archive/b.md''),
                 last_accessed = 8\<rparr>], next_id = 3\<rparr>"
proof -
  let ?a = "\<lparr>id' = 1, title = ustr ''a'', content = ustr ''x'', created_at = 7,
              updated_at = 7, file_path = Some (ustr ''archive/a.md''), last_accessed = 7\<rparr>"
  let ?b = "\<lparr>id' = 2, title = ustr ''b'', content = ustr ''y'', created_at = 8,
              updated_at = 8, file_path = Some (ustr ''archive/b.md''), last_accessed = 8\<rparr>"
  have stale: "has_stale_content 1800000008 ?a" and fresh: "\<not> has_stale_content 1800000008 ?b"
    by (simp_all add: has_stale_content_def backing_file_def ustr_def CACHE_EXPIRY_def)
  have le: "(1800000008 :: int) \<le> 1800000009"
    by simp
  from fresh have clean: "list_all (\<lambda>a. \<not> has_stale_content 1800000008 a) (db \<lparr>db = [?b], next_id = 3\<rparr>)"
    by simp
  show ?thesis
    using cleanup_cache_idempotent [of "\<lparr>db = [?a, ?b], next_id = 3\<rparr>" 1800000008 1800000009]
      cleanup_cache_idempotent [of "\<lparr>db = [?b], next_id = 3\<rparr>" 1800000008 1800000009]
      stale fresh le clean
    by simp
qed

subsection \<open>free names\<close>

lemma free_file_path_free: "\<not> path_exists fs (free_file_path fs s d c p)"
proof (induction fs s d c p rule: free_file_path.induct)
  case (1 fs s d c p)
  show ?case
  proof (cases "path_exists fs p")
    case True
    with "1.IH" show ?thesis
      by (simp add: free_file_path.simps [of fs s d c p])
  next
    case False
    then show ?thesis
      by (simp add: free_file_path.simps [of fs s d c p])
  qed
qed

lemma free_file_path_unused: "\<not> path_exists fs p \<Longrightarrow> free_file_path fs s d c p = p"
  by (simp add: free_file_path.simps [of fs s d c p])

lemma free_file_path_suffixed:
  "path_exists fs p \<Longrightarrow>
   \<exists>k\<ge>c. free_file_path fs s d c p = suffixed_path s d k
        \<and> (\<forall>j. c \<le> j \<and> j < k \<longrightarrow> path_exists fs (suffixed_path s d j))"
proof (induction fs s d c p rule: free_file_path.induct)
  case (1 fs s d c p)
  from "1.prems" have step: "free_file_path fs s d c p
      = free_file_path fs s d (c + 1) (suffixed_path s d c)"
    by (simp add: free_file_path.simps [of fs s d c p])
  show ?case
  proof (cases "path_exists fs (suffixed_path s d c)")
    case False
    then have "free_file_path fs s d c p = suffixed_path s d c"
      by (simp add: step free_file_path_unused)
    then show ?thesis by auto
  next
    case True
    from "1.IH" [OF "1.prems" True] obtain k where k: "c + 1 \<le> k"
      "free_file_path fs s d (c + 1) (suffixed_path s d c) = suffixed_path s d k"
      "\<forall>j. c + 1 \<le> j \<and> j < k \<longrightarrow> path_exists fs (suffixed_path s d j)"
      by blast
    have "\<forall>j. c \<le> j \<and> j < k \<longrightarrow> path_exists fs (suffixed_path s d j)"
    proof (intro allI impI)
      fix j assume j: "c \<le> j \<and> j < k"
      show "path_exists fs (suffixed_path s d j)"
      proof (cases "j = c")
        case True
        with \<open>path_exists fs (suffixed_path s d c)\<close> show ?thesis by simp
      next
        case False
        with j have "c + 1 \<le> j \<and> j < k" by simp
        with k(3) show ?thesis by blast
      qed
    qed
    with k(1,2) step show ?thesis
      by (intro exI [of _ k]) simp
  qed
qed

lemma resolved_path_free: "\<not> path_exists fs (resolved_path isalnum fs d t)"
  by (simp add: resolved_path_def Let_def free_file_path_free)

text \<open>A create never touches a file that is already there.\<close>

lemma create_keeps_files:
  assumes "create_new_article isalnum st fs now d t c = (st', fs', r)"
    and "path_exists fs q"
  shows "fmlookup (files fs') q = fmlookup (files fs) q"
proof -
  from assms(2) have "q \<noteq> resolved_path isalnum fs d t"
    using resolved_path_free [of fs isalnum d t] by auto
  with assms(1) show ?thesis
    by (auto simp: create_new_article_def Let_def write_file_def split: if_splits option.splits)
qed

lemma create_avoids_present_file:
  assumes "create_new_article isalnum st fs now d t c = (st', fs', Inr a)"
    and "path_exists fs q"
  shows "file_path a \<noteq> Some q \<and> fmlookup (files fs') q = fmlookup (files fs) q"
proof -
  have "file_path a = Some (resolved_path isalnum fs d t)"
    by (simp add: create_success(1) [OF assms(1)])
  moreover from assms(2) have "q \<noteq> resolved_path isalnum fs d t"
    using resolved_path_free [of fs isalnum d t] by auto
  ultimately show ?thesis
    using create_keeps_files [OF assms] by simp
qed

text \<open>
  C4. Let two calls of \<^verbatim>\<open>create_new_article\<close> with the same title succeed, with any calls
  of the store in between, and let the file of the first article still exist when the
  second call starts. Then the second article gets a different path, one that did not exist,
  and the second call leaves the first file as it found it. When the plain name
  \<^verbatim>\<open>archive/<safe title>.md\<close> is taken, the second path is
  \<^verbatim>\<open>archive/<safe title>_<ddmmyy>_<k>.md\<close> with the day, month and year of the second
  call's clock and the first counter \<open>k \<ge> 1\<close> whose name is free; otherwise it is the plain
  name. When the second call follows the first directly, the plain name is taken and the
  first file holds the first content afterwards.
\<close>

theorem same_title_distinct_files:
  assumes c1: "create_new_article isalnum st fs now1 (strftime_dmy now1) title' content1
                 = (st1, fs1, Inr a1)"
    and mid: "run isalnum (st1, fs1) reqs = ((st', fs'), ids)"
    and c2: "create_new_article isalnum st' fs' now2 (strftime_dmy now2) title' content2
               = (st2, fs2, Inr a2)"
    and p1: "file_path a1 = Some p1"
    and still: "path_exists fs' p1"
  shows "\<exists>p2. file_path a2 = Some p2 \<and> p1 \<noteq> p2 \<and> \<not> path_exists fs' p2
           \<and> fmlookup (files fs2) p1 = fmlookup (files fs') p1
           \<and> fmlookup (files fs2) p2 = Some (Utf8 content2)
           \<and> (if path_exists fs' (path_join ARCHIVE_DIR (map (safe_char isalnum) title' @ ustr ''.md''))
               then \<exists>k\<ge>1. p2 = suffixed_path (map (safe_char isalnum) title') (strftime_dmy now2) k
                      \<and> (\<forall>j. 1 \<le> j \<and> j < k \<longrightarrow>
                            path_exists fs'
                              (suffixed_path (map (safe_char isalnum) title') (strftime_dmy now2) j))
               else p2 = path_join ARCHIVE_DIR (map (safe_char isalnum) title' @ ustr ''.md''))
           \<and> (reqs = [] \<longrightarrow>
                 path_exists fs' (path_join ARCHIVE_DIR (map (safe_char isalnum) title' @ ustr ''.md''))
                 \<and> fmlookup (files fs2) p1 = Some (Utf8 content1))"
proof -
  let ?s = "map (safe_char isalnum) title'"
  let ?orig = "path_join ARCHIVE_DIR (?s @ ustr ''.md'')"
  let ?d2 = "strftime_dmy now2"
  let ?p2 = "resolved_path isalnum fs' ?d2 title'"
  note r2 = create_success [OF c2]
  have fp2: "file_path a2 = Some ?p2" by (simp add: r2(1))
  have free2: "\<not> path_exists fs' ?p2" by (rule resolved_path_free)
  with still have neq: "p1 \<noteq> ?p2" by auto
  have keep: "fmlookup (files fs2) p1 = fmlookup (files fs') p1"
    using c2 still by (rule create_keeps_files)
  have new: "fmlookup (files fs2) ?p2 = Some (Utf8 content2)"
    by (simp add: r2(3))
  have p2: "?p2 = free_file_path fs' ?s ?d2 1 ?orig"
    by (simp add: resolved_path_def Let_def)
  have shape: "if path_exists fs' ?orig
               then \<exists>k\<ge>1. ?p2 = suffixed_path ?s ?d2 k
                      \<and> (\<forall>j. 1 \<le> j \<and> j < k \<longrightarrow> path_exists fs' (suffixed_path ?s ?d2 j))
               else ?p2 = ?orig"
  proof (cases "path_exists fs' ?orig")
    case True
    from free_file_path_suffixed [OF this, of 1 ?s ?d2] True show ?thesis
      unfolding p2 by simp
  next
    case False
    then show ?thesis
      unfolding p2 by (simp add: free_file_path_unused)
  qed
  have direct: "path_exists fs' ?orig \<and> fmlookup (files fs2) p1 = Some (Utf8 content1)"
    if "reqs = []"
  proof -
    from that mid have eq: "fs' = fs1" by simp
    note r1 = create_success [OF c1]
    from p1 have p1eq: "p1 = resolved_path isalnum fs (strftime_dmy now1) title'"
      by (simp add: r1(1))
    have in1: "fmlookup (files fs1) p1 = Some (Utf8 content1)"
      by (simp add: r1(3) p1eq)
    have "path_exists fs1 ?orig"
    proof (cases "path_exists fs ?orig")
      case True
      then show ?thesis by (simp add: r1(3) path_exists_def)
    next
      case False
      then have "p1 = ?orig"
        by (simp add: p1eq resolved_path_def Let_def free_file_path_unused)
      with in1 show ?thesis by (simp add: path_exists_def)
    qed
    with in1 keep eq show ?thesis by simp
  qed
  from fp2 neq free2 keep new shape direct show ?thesis
    by (intro exI [of _ ?p2] conjI impI) simp_all
qed

text \<open>
  An example on 3 November 2026: an article "a" is created, then an article "b" is created
  and deleted again, then a second article "a" is created. The first gets
  \<^verbatim>\<open>archive/a.md\<close>, the second \<^verbatim>\<open>archive/a_031126_1.md\<close>.
\<close>

theorem same_title_distinct_files_witness:
  "create_new_article ascii_isalnum initial_store empty_fs 63929304000000000 (strftime_dmy 63929304000000000)
       (ustr ''a'') (ustr ''x'')
     = (\<lparr>db = [\<lparr>id' = 1, title = ustr ''a'', content = ustr ''x'',
          created_at = 63929304000000000, updated_at = 63929304000000000,
          file_path = Some (ustr ''archive/a.md''), last_accessed = 63929304000000000\<rparr>], next_id = 2\<rparr>,
        (empty_fs\<lparr>files := fmupd (ustr ''archive/a.md'') (Utf8 (ustr ''x'')) fmempty\<rparr>),
        Inr \<lparr>id' = 1, title = ustr ''a'', content = ustr ''x'',
          created_at = 63929304000000000, updated_at = 63929304000000000,
          file_path = Some (ustr ''archive/a.md''), last_accessed = 63929304000000000\<rparr>)
   \<and> run ascii_isalnum
        (\<lparr>db = [\<lparr>id' = 1, title = ustr ''a'', content = ustr ''x'',
          created_at = 63929304000000000, updated_at = 63929304000000000,
          file_path = Some (ustr ''archive/a.md''), last_accessed = 63929304000000000\<rparr>], next_id = 2\<rparr>,
         (empty_fs\<lparr>files := fmupd (ustr ''archive/a.md'') (Utf8 (ustr ''x'')) fmempty\<rparr>))
        [Create 63929304000500000 (strftime_dmy 63929304000500000) (ustr ''b'') (ustr ''z''), Delete 2]
     = ((\<lparr>db = [\<lparr>id' = 1, title = ustr ''a'', content = ustr ''x'',
          created_at = 63929304000000000, updated_at = 63929304000000000,
          file_path = Some (ustr ''archive/a.md''), last_accessed = 63929304000000000\<rparr>], next_id = 3\<rparr>,
         (empty_fs\<lparr>files := fmupd (ustr ''archive/a.md'') (Utf8 (ustr ''x'')) fmempty\<rparr>)), [2])
   \<and> create_new_article ascii_isalnum
        \<lparr>db = [\<lparr>id' = 1, title = ustr ''a'', content = ustr ''x'',
          created_at = 63929304000000000, updated_at = 63929304000000000,
          file_path = Some (ustr ''archive/a.md''), last_accessed = 63929304000000000\<rparr>], next_id = 3\<rparr>
        (empty_fs\<lparr>files := fmupd (ustr ''archive/a.md'') (Utf8 (ustr ''x'')) fmempty\<rparr>)
        63929304001000000 (strftime_dmy 63929304001000000) (ustr ''a'') (ustr ''y'')
     = (\<lparr>db = [\<lparr>id' = 1, title = ustr ''a'', content = ustr ''x'',
          created_at = 63929304000000000, updated_at = 63929304000000000,
          file_path = Some (ustr ''archive/a.md''), last_accessed = 63929304000000000\<rparr>,
         \<lparr>id' = 3, title = ustr ''a'', content = ustr ''y'',
          created_at = 63929304001000000, updated_at = 63929304001000000,
          file_path = Some (ustr ''archive/a_031126_1.md''), last_accessed = 63929304001000000\<rparr>], next_id = 4\<rparr>,
        (empty_fs\<lparr>files := fmupd (ustr ''archive/a_031126_1.md'') (Utf8 (ustr ''y''))
                      (fmupd (ustr ''archive/a.md'') (Utf8 (ustr ''x'')) fmempty)\<rparr>),
        Inr \<lparr>id' = 3, title = ustr ''a'', content = ustr ''y'',
          created_at = 63929304001000000, updated_at = 63929304001000000,
          file_path = Some (ustr ''archive/a_031126_1.md''), last_accessed = 63929304001000000\<rparr>)
   \<and> path_exists (empty_fs\<lparr>files := fmupd (ustr ''archive/a.md'') (Utf8 (ustr ''x'')) fmempty\<rparr>) (ustr ''archive/a.md'')
   \<and> ustr ''archive/a.md'' \<noteq> ustr ''archive/a_031126_1.md''
   \<and> ustr ''archive/a_031126_1.md''
       = suffixed_path (map (safe_char ascii_isalnum) (ustr ''a'')) (strftime_dmy 63929304001000000) 1
   \<and> fmlookup (files (empty_fs\<lparr>files := fmupd (ustr ''archive/a_031126_1.md'') (Utf8 (ustr ''y''))
                      (fmupd (ustr ''archive/a.md'') (Utf8 (ustr ''x'')) fmempty)\<rparr>)) (ustr ''archive/a.md'')
       = Some (Utf8 (ustr ''x''))"
proof -
  let ?a1 = "\<lparr>id' = 1, title = ustr ''a'', content = ustr ''x'',
          created_at = 63929304000000000, updated_at = 63929304000000000,
          file_path = Some (ustr ''archive/a.md''), last_accessed = 63929304000000000\<rparr>"
  let ?a2 = "\<lparr>id' = 3, title = ustr ''a'', content = ustr ''y'',
          created_at = 63929304001000000, updated_at = 63929304001000000,
          file_path = Some (ustr ''archive/a_031126_1.md''), last_accessed = 63929304001000000\<rparr>"
  let ?st1 = "\<lparr>db = [?a1], next_id = 2\<rparr>"
  let ?stm = "\<lparr>db = [?a1], next_id = 3\<rparr>"
  let ?st2 = "\<lparr>db = [?a1, ?a2], next_id = 4\<rparr>"
  let ?fs1 = "empty_fs\<lparr>files := fmupd (ustr ''archive/a.md'') (Utf8 (ustr ''x'')) fmempty\<rparr>"
  let ?fs2 = "empty_fs\<lparr>files := fmupd (ustr ''archive/a_031126_1.md'') (Utf8 (ustr ''y''))
                      (fmupd (ustr ''archive/a.md'') (Utf8 (ustr ''x'')) fmempty)\<rparr>"
  note date_defs = strftime_dmy_def ord2ymd_def two_digits_def days_before_month_def
    days_in_month_def
  have h1: "create_new_article ascii_isalnum initial_store empty_fs 63929304000000000 (strftime_dmy 63929304000000000)
       (ustr ''a'') (ustr ''x'') = (?st1, ?fs1, Inr ?a1)"
    by (simp add: eval_defs date_defs)
  have h2: "run ascii_isalnum (?st1, ?fs1) [Create 63929304000500000 (strftime_dmy 63929304000500000) (ustr ''b'') (ustr ''z''), Delete 2] = ((?stm, ?fs1), [2])"
    by (simp add: eval_defs date_defs fmap_ext)
  have h3: "create_new_article ascii_isalnum ?stm ?fs1 63929304001000000 (strftime_dmy 63929304001000000)
       (ustr ''a'') (ustr ''y'') = (?st2, ?fs2, Inr ?a2)"
    by (simp add: eval_defs date_defs)
  have h4: "file_path ?a1 = Some (ustr ''archive/a.md'')"
    by simp
  have h5: "path_exists ?fs1 (ustr ''archive/a.md'')"
    by (simp add: path_exists_def)
  from same_title_distinct_files [OF h1 h2 h3 h4 h5]
  have "ustr ''archive/a.md'' \<noteq> ustr ''archive/a_031126_1.md''
      \<and> fmlookup (files ?fs2) (ustr ''archive/a.md'') = fmlookup (files ?fs1) (ustr ''archive/a.md'')"
    by auto
  moreover have "ustr ''archive/a_031126_1.md''
      = suffixed_path (map (safe_char ascii_isalnum) (ustr ''a'')) (strftime_dmy 63929304001000000) 1"
    by (simp add: eval_defs date_defs)
  ultimately show ?thesis
    using h1 h2 h3 h5 by simp
qed

text \<open>
  C4 as stated, for any two successful calls, fails when the first article is deleted in
  between: \<^verbatim>\<open>delete_article_db\<close> removes \<^verbatim>\<open>archive/a.md\<close>, the name is free again, and
  the second article "a" gets the path the first one had.
\<close>

theorem same_title_after_delete_same_path:
  "create_new_article ascii_isalnum initial_store empty_fs 63929304000000000 (strftime_dmy 63929304000000000)
       (ustr ''a'') (ustr ''x'')
     = (\<lparr>db = [\<lparr>id' = 1, title = ustr ''a'', content = ustr ''x'',
          created_at = 63929304000000000, updated_at = 63929304000000000,
          file_path = Some (ustr ''archive/a.md''), last_accessed = 63929304000000000\<rparr>], next_id = 2\<rparr>,
        (empty_fs\<lparr>files := fmupd (ustr ''archive/a.md'') (Utf8 (ustr ''x'')) fmempty\<rparr>),
        Inr \<lparr>id' = 1, title = ustr ''a'', content = ustr ''x'',
          created_at = 63929304000000000, updated_at = 63929304000000000,
          file_path = Some (ustr ''archive/a.md''), last_accessed = 63929304000000000\<rparr>)
   \<and> delete_article_db
        \<lparr>db = [\<lparr>id' = 1, title = ustr ''a'', content = ustr ''x'',
          created_at = 63929304000000000, updated_at = 63929304000000000,
          file_path = Some (ustr ''archive/a.md''), last_accessed = 63929304000000000\<rparr>], next_id = 2\<rparr>
        (empty_fs\<lparr>files := fmupd (ustr ''archive/a.md'') (Utf8 (ustr ''x'')) fmempty\<rparr>) 1
     = (\<lparr>db = [], next_id = 2\<rparr>, empty_fs)
   \<and> create_new_article ascii_isalnum \<lparr>db = [], next_id = 2\<rparr> empty_fs
        63929304001000000 (strftime_dmy 63929304001000000) (ustr ''a'') (ustr ''y'')
     = (\<lparr>db = [\<lparr>id' = 2, title = ustr ''a'', content = ustr ''y'',
          created_at = 63929304001000000, updated_at = 63929304001000000,
          file_path = Some (ustr ''archive/a.md''), last_accessed = 63929304001000000\<rparr>], next_id = 3\<rparr>,
        (empty_fs\<lparr>files := fmupd (ustr ''archive/a.md'') (Utf8 (ustr ''y'')) fmempty\<rparr>),
        Inr \<lparr>id' = 2, title = ustr ''a'', content = ustr ''y'',
          created_at = 63929304001000000, updated_at = 63929304001000000,
          file_path = Some (ustr ''archive/a.md''), last_accessed = 63929304001000000\<rparr>)"
  by (simp add: eval_defs strftime_dmy_def ord2ymd_def two_digits_def days_before_month_def
      days_in_month_def fmap_ext)

subsection \<open>Ids\<close>

lemma add_archived_db:
  "\<exists>a. db (add_archived st f) = db st @ [a] \<and> id' a = next_id st"
  by (simp add: add_archived_def Let_def split: option.splits prod.splits)

lemma add_archived_next_id: "next_id (add_archived st f) = next_id st + 1"
  by (simp add: add_archived_def Let_def split: option.splits prod.splits)

lemma scan_ids:
  "\<exists>new. db (foldl add_archived st found) = db st @ new
        \<and> sorted_wrt (<) (map id' new)
        \<and> (\<forall>i\<in>set (map id' new). next_id st \<le> i \<and> i < next_id (foldl add_archived st found))
        \<and> next_id st \<le> next_id (foldl add_archived st found)"
proof (induction found rule: rev_induct)
  case Nil
  show ?case by simp
next
  case (snoc f found)
  let ?st = "foldl add_archived st found"
  from snoc obtain new where new: "db ?st = db st @ new" "sorted_wrt (<) (map id' new)"
    "\<forall>i\<in>set (map id' new). next_id st \<le> i \<and> i < next_id ?st" "next_id st \<le> next_id ?st"
    by blast
  obtain a where a: "db (add_archived ?st f) = db ?st @ [a]" "id' a = next_id ?st"
    using add_archived_db by blast
  have "db (foldl add_archived st (found @ [f])) = db st @ (new @ [a])"
    by (simp add: a(1) new(1))
  moreover have "sorted_wrt (<) (map id' (new @ [a]))"
    using new(2,3) a(2) by (auto simp: sorted_wrt_append)
  moreover have "\<forall>i\<in>set (map id' (new @ [a])).
      next_id st \<le> i \<and> i < next_id (foldl add_archived st (found @ [f]))"
    using new(3,4) a(2) by (auto simp: add_archived_next_id)
  moreover have "next_id st \<le> next_id (foldl add_archived st (found @ [f]))"
    using new(4) by (simp add: add_archived_next_id)
  ultimately show ?case by blast
qed

lemma get_article_next_id: "next_id (fst (get_article st fs now n)) = next_id st"
  by (simp add: get_article_def split: prod.splits)

lemma update_article_db_next_id:
  "next_id (fst (update_article_db st fs now1 now2 n t c)) = next_id st"
  by (simp add: update_article_db_def split: prod.splits)

lemma delete_article_db_next_id: "next_id (fst (delete_article_db st fs n)) = next_id st"
  by (simp add: delete_article_db_def split: prod.splits)

lemma step_ids:
  assumes "step isalnum (st, fs) r = ((st', fs'), ids)"
  shows "sorted_wrt (<) ids \<and> (\<forall>i\<in>set ids. next_id st \<le> i \<and> i < next_id st')
         \<and> next_id st \<le> next_id st'"
proof (cases r)
  case (Scan scan)
  show ?thesis
  proof (cases scan)
    case None
    with Scan assms show ?thesis by (auto simp: init_archive_def)
  next
    case (Some found)
    from scan_ids [of st found] obtain new where
      "db (foldl add_archived st found) = db st @ new" "sorted_wrt (<) (map id' new)"
      "\<forall>i\<in>set (map id' new). next_id st \<le> i \<and> i < next_id (foldl add_archived st found)"
      "next_id st \<le> next_id (foldl add_archived st found)"
      by blast
    with Scan Some assms show ?thesis
      by (auto simp: init_archive_def Let_def)
  qed
next
  case (Create now d t c)
  show ?thesis
  proof (cases "create_new_article isalnum st fs now d t c")
    case (fields st1 fs1 res)
    show ?thesis
    proof (cases res)
      case (Inl e)
      with fields have "st1 = st" by (simp add: create_failure)
      with Create fields Inl assms show ?thesis by auto
    next
      case (Inr a)
      with fields have "a = \<lparr>id' = next_id st, title = t, content = c, created_at = now,
              updated_at = now, file_path = Some (resolved_path isalnum fs d t),
              last_accessed = now\<rparr>" "st1 = st\<lparr>db := db st @ [a], next_id := next_id st + 1\<rparr>"
        by (simp_all add: create_success)
      then have "id' a = next_id st" "next_id st1 = next_id st + 1" by simp_all
      with Create fields Inr assms show ?thesis by auto
    qed
  qed
next
  case (Get now n)
  with assms get_article_next_id [of st fs now n] show ?thesis
    by (auto split: prod.splits)
next
  case (Update now1 now2 n t c)
  with assms update_article_db_next_id [of st fs now1 now2 n t c] show ?thesis
    by (auto split: prod.splits)
next
  case (Delete n)
  with assms delete_article_db_next_id [of st fs n] show ?thesis
    by auto
next
  case (Sweep now)
  with assms show ?thesis by (auto simp: cleanup_cache_def)
next
  case (Outside fs2)
  with assms show ?thesis by auto
qed

lemma run_ids:
  "run isalnum (st, fs) reqs = ((st', fs'), ids) \<Longrightarrow>
   sorted_wrt (<) ids \<and> (\<forall>i\<in>set ids. next_id st \<le> i \<and> i < next_id st')
   \<and> next_id st \<le> next_id st'"
proof (induction reqs arbitrary: st fs ids)
  case Nil
  then show ?case by simp
next
  case (Cons r rs)
  obtain st1 fs1 ids1 where s: "step isalnum (st, fs) r = ((st1, fs1), ids1)"
    by (metis surj_pair)
  obtain w2 ids2 where r: "run isalnum (st1, fs1) rs = (w2, ids2)"
    by (metis surj_pair)
  with s Cons.prems have eq: "w2 = (st', fs')" "ids = ids1 @ ids2"
    by simp_all
  note a = step_ids [OF s]
  note b = Cons.IH [OF r [unfolded eq(1)]]
  from a b show ?case
    unfolding eq(2) by (fastforce simp: sorted_wrt_append)
qed

subsection \<open>The invariant\<close>

lemma store_inv_ids:
  "store_inv st \<longleftrightarrow> distinct (map id' (db st)) \<and> (\<forall>i\<in>set (map id' (db st)). i < next_id st)"
  by (auto simp: store_inv_def list_all_iff)

lemma store_inv_same_ids:
  "map id' (db st') = map id' (db st) \<Longrightarrow> next_id st' = next_id st \<Longrightarrow> store_inv st \<Longrightarrow> store_inv st'"
  by (simp add: store_inv_ids)

lemma store_inv_initial: "store_inv initial_store"
  by (simp add: store_inv_def initial_store_def)

lemma store_inv_append:
  "store_inv st \<Longrightarrow> id' a = next_id st \<Longrightarrow>
   store_inv (st\<lparr>db := db st @ [a], next_id := next_id st + 1\<rparr>)"
  by (auto simp: store_inv_ids)

lemma add_archived_inv: "store_inv st \<Longrightarrow> store_inv (add_archived st f)"
proof -
  assume inv: "store_inv st"
  obtain a where "db (add_archived st f) = db st @ [a]" "id' a = next_id st"
    using add_archived_db by blast
  with inv show ?thesis
    by (auto simp: store_inv_ids add_archived_next_id)
qed

lemma init_archive_inv: "store_inv st \<Longrightarrow> store_inv (init_archive st scan)"
proof (cases scan)
  case None
  assume "store_inv st"
  with None show ?thesis by (simp add: init_archive_def)
next
  case (Some found)
  assume inv: "store_inv st"
  have "store_inv (foldl add_archived st found)"
    by (induction found rule: rev_induct) (simp_all add: inv add_archived_inv)
  with Some show ?thesis by (simp add: init_archive_def)
qed

lemma create_new_article_inv:
  assumes "store_inv st" and "create_new_article isalnum st fs now d t c = (st', fs', r)"
  shows "store_inv st'"
proof (cases r)
  case (Inl e)
  with assms show ?thesis by (auto dest: create_failure)
next
  case (Inr a)
  with assms(2) have "a = \<lparr>id' = next_id st, title = t, content = c, created_at = now,
      updated_at = now, file_path = Some (resolved_path isalnum fs d t), last_accessed = now\<rparr>"
    and st': "st' = st\<lparr>db := db st @ [a], next_id := next_id st + 1\<rparr>"
    by (simp_all add: create_success)
  then have "id' a = next_id st" by simp
  with assms(1) show ?thesis
    unfolding st' by (rule store_inv_append)
qed

lemma get_article_inv: "store_inv st \<Longrightarrow> store_inv (fst (get_article st fs now n))"
proof (rule store_inv_same_ids)
  show "map id' (db (fst (get_article st fs now n))) = map id' (db st)"
    using get_article_loop_ids [of fs now n "db st"]
    by (cases "get_article_loop fs now n (db st)") (simp add: get_article_def)
  show "next_id (fst (get_article st fs now n)) = next_id st"
    by (rule get_article_next_id)
qed

lemma update_article_db_inv:
  "store_inv st \<Longrightarrow> store_inv (fst (update_article_db st fs now1 now2 n t c))"
proof (rule store_inv_same_ids)
  show "map id' (db (fst (update_article_db st fs now1 now2 n t c))) = map id' (db st)"
    using update_article_loop_ids [of fs now1 now2 n t c "db st"]
    by (cases "update_article_loop fs now1 now2 n t c (db st)") (simp add: update_article_db_def)
  show "next_id (fst (update_article_db st fs now1 now2 n t c)) = next_id st"
    by (rule update_article_db_next_id)
qed

lemma delete_article_db_inv:
  assumes "store_inv st"
  shows "store_inv (fst (delete_article_db st fs n))"
proof -
  have "map id' (db (fst (delete_article_db st fs n))) = remove1 n (map id' (db st))"
    using delete_article_loop_ids [of fs n "db st"]
    by (cases "delete_article_loop fs n (db st)") (simp add: delete_article_db_def)
  moreover have "set (remove1 n (map id' (db st))) \<subseteq> set (map id' (db st))"
    by (rule set_remove1_subset)
  ultimately show ?thesis
    using assms delete_article_db_next_id [of st fs n]
    by (auto simp: store_inv_ids)
qed

lemma sweep_article_id: "id' (sweep_article now a) = id' a"
  by (simp add: sweep_article_def)

lemma cleanup_cache_inv: "store_inv st \<Longrightarrow> store_inv (cleanup_cache st now)"
  by (rule store_inv_same_ids) (simp_all add: cleanup_cache_def sweep_article_id)

lemma step_inv:
  assumes "store_inv st" and "step isalnum (st, fs) r = ((st', fs'), ids)"
  shows "store_inv st'"
proof (cases r)
  case (Scan scan)
  with assms show ?thesis by (auto simp: Let_def init_archive_inv)
next
  case (Create now d t c)
  with assms create_new_article_inv [of st isalnum fs now d t c] show ?thesis
    by (auto split: prod.splits sum.splits)
next
  case (Get now n)
  with assms get_article_inv [of st fs now n] show ?thesis
    by (auto split: prod.splits)
next
  case (Update now1 now2 n t c)
  with assms update_article_db_inv [of st fs now1 now2 n t c] show ?thesis
    by (auto split: prod.splits)
next
  case (Delete n)
  with assms delete_article_db_inv [of st fs n] show ?thesis
    by auto
next
  case (Sweep now)
  with assms show ?thesis by (auto simp: cleanup_cache_inv)
next
  case (Outside fs2)
  with assms show ?thesis by auto
qed

lemma run_inv:
  "store_inv st \<Longrightarrow> run isalnum (st, fs) reqs = ((st', fs'), ids) \<Longrightarrow> store_inv st'"
proof (induction reqs arbitrary: st fs ids)
  case Nil
  then show ?case by simp
next
  case (Cons r rs)
  obtain st1 fs1 ids1 where s: "step isalnum (st, fs) r = ((st1, fs1), ids1)"
    by (metis surj_pair)
  obtain w2 ids2 where r: "run isalnum (st1, fs1) rs = (w2, ids2)"
    by (metis surj_pair)
  with s Cons.prems(2) have eq: "w2 = (st', fs')"
    by simp
  from Cons.prems(1) s have "store_inv st1" by (rule step_inv)
  from Cons.IH [OF this r [unfolded eq]] show ?case .
qed

text \<open>
  C6. Over any sequence of calls (scans, creates, lookups, updates, deletes, sweeps, with
  any changes of the directory in between), the ids given to new articles, in the order
  they are given, are strictly increasing and lie between the id counter before and after.
  Starting from a store whose ids are distinct and below the counter, the store stays
  so, and every new id is above the id of every article that was there at the start.
\<close>

theorem issued_ids_strictly_increasing:
  assumes "run isalnum (st, fs) reqs = ((st', fs'), ids)"
  shows "sorted_wrt (<) ids \<and> (\<forall>i\<in>set ids. next_id st \<le> i \<and> i < next_id st')
       \<and> (store_inv st \<longrightarrow> store_inv st' \<and> (\<forall>a\<in>set (db st). \<forall>i\<in>set ids. id' a < i))"
proof -
  note ids = run_ids [OF assms]
  have "store_inv st' \<and> (\<forall>a\<in>set (db st). \<forall>i\<in>set ids. id' a < i)" if inv: "store_inv st"
  proof
    from inv assms show "store_inv st'" by (rule run_inv)
    from inv have "\<forall>a\<in>set (db st). id' a < next_id st"
      by (simp add: store_inv_def list_all_iff)
    with ids show "\<forall>a\<in>set (db st). \<forall>i\<in>set ids. id' a < i"
      by fastforce
  qed
  with ids show ?thesis by blast
qed

theorem issued_ids_strictly_increasing_witness:
  "run ascii_isalnum (initial_store, empty_fs)
     [Create 7 (ustr ''010203'') (ustr ''a'') (ustr ''x''), Delete 1,
      Create 8 (ustr ''010203'') (ustr ''a'') (ustr ''y'')]
     = ((\<lparr>db = [\<lparr>id' = 2, title = ustr ''a'', content = ustr ''y'', created_at = 8,
                  updated_at = 8, file_path = Some (ustr ''archive/a.md''),
                  last_accessed = 8\<rparr>], next_id = 3\<rparr>,
         empty_fs\<lparr>files := fmupd (ustr ''archive/a.md'') (Utf8 (ustr ''y'')) fmempty\<rparr>),
        [1, 2])
   \<and> sorted_wrt (<) [1 :: int, 2] \<and> store_inv initial_store
   \<and> store_inv \<lparr>db = [\<lparr>id' = 2, title = ustr ''a'', content = ustr ''y'', created_at = 8,
                  updated_at = 8, file_path = Some (ustr ''archive/a.md''),
                  last_accessed = 8\<rparr>], next_id = 3\<rparr>"
proof -
  have h: "run ascii_isalnum (initial_store, empty_fs)
     [Create 7 (ustr ''010203'') (ustr ''a'') (ustr ''x''), Delete 1,
      Create 8 (ustr ''010203'') (ustr ''a'') (ustr ''y'')]
     = ((\<lparr>db = [\<lparr>id' = 2, title = ustr ''a'', content = ustr ''y'', created_at = 8,
                  updated_at = 8, file_path = Some (ustr ''archive/a.md''),
                  last_accessed = 8\<rparr>], next_id = 3\<rparr>,
         empty_fs\<lparr>files := fmupd (ustr ''archive/a.md'') (Utf8 (ustr ''y'')) fmempty\<rparr>),
        [1, 2])"
    by (simp add: eval_defs fmap_ext)
  have i: "store_inv initial_store"
    by (rule store_inv_initial)
  show ?thesis
    using h i issued_ids_strictly_increasing [OF h] by simp
qed

subsection \<open>Loading and placeholders\<close>








text \<open>
  C7 says that \<^verbatim>\<open>get_article\<close> never lets a failure of the read out. For a missing
  file and for an \<^verbatim>\<open>OSError\<close> that is so (\<open>get_article_recovers\<close>). A file whose bytes
  are not UTF-8 makes \<^verbatim>\<open>f.read()\<close> raise \<^verbatim>\<open>UnicodeDecodeError\<close>, which neither
  \<^verbatim>\<open>except\<close> clause catches: the call raises, and the article is left as it was.
\<close>

theorem get_article_undecodable_raises:
  "get_article
     \<lparr>db = [\<lparr>id' = 1, title = ustr ''a'', content = [], created_at = 7, updated_at = 7,
              file_path = Some (ustr ''archive/a.md''), last_accessed = 7\<rparr>], next_id = 2\<rparr>
     (empty_fs\<lparr>files := fmupd (ustr ''archive/a.md'') NotUtf8 fmempty\<rparr>) 9 1
   = (\<lparr>db = [\<lparr>id' = 1, title = ustr ''a'', content = [], created_at = 7, updated_at = 7,
               file_path = Some (ustr ''archive/a.md''), last_accessed = 7\<rparr>], next_id = 2\<rparr>,
      Inl UnicodeDecodeError, [ustr ''archive/a.md''])"
  by (simp add: eval_defs)

end
